theory Spec2Isabelle
  imports Complex_Main
begin

text \<open>
  The change-detection pipeline of the website diff checker: the diff snippet
  (\<open>diff_generator.py\<close>), the state table (\<open>dynamodb_state.py\<close>) and the handler
  (\<open>app.py\<close>: \<open>should_notify\<close>, \<open>process_url\<close>, \<open>lambda_handler\<close>). Functions return
  their result together with the world they leave; a raised exception is \<open>Inl\<close>. The
  network, the HTML normalizer, the hash, the clock, the mail and the line matcher of
  \<open>difflib\<close> are parameters.
\<close>

section \<open>Python strings\<close>

text \<open>
  A Python \<open>str\<close> is modelled as a \<open>string\<close>; each \<open>char\<close> stands for one code
  point below 256, so \<open>length\<close> is Python's \<open>len\<close> on such strings.
\<close>

definition LF :: char where
  "LF = CHR 0x0A"

definition CR :: char where
  "CR = CHR 0x0D"

text \<open>
  The characters at which \<open>str.splitlines\<close> breaks a line, among the code points
  below 256: \<open>\n \v \f \r\<close>, the separators \<open>0x1c 0x1d 0x1e\<close> and \<open>0x85\<close>.
\<close>

definition is_linebreak :: "char \<Rightarrow> bool" where
  "is_linebreak c = (c = LF \<or> c = CHR 0x0B \<or> c = CHR 0x0C \<or> c = CR
     \<or> c = CHR 0x1C \<or> c = CHR 0x1D \<or> c = CHR 0x1E \<or> c = CHR 0x85)"

text \<open>
  \<open>s.splitlines()\<close>: the first argument is the line read so far. \<open>\r\n\<close> is one
  break, and a break at the very end of the text opens no further line.
\<close>

fun splitlines_from :: "string \<Rightarrow> string \<Rightarrow> string list" where
  "splitlines_from cur [] = (if cur = [] then [] else [cur])"
| "splitlines_from cur [c] = (if is_linebreak c then [cur] else [cur @ [c]])"
| "splitlines_from cur (c # d # cs) =
     (if c = CR \<and> d = LF then cur # splitlines_from [] cs
      else if is_linebreak c then cur # splitlines_from [] (d # cs)
      else splitlines_from (cur @ [c]) (d # cs))"

definition splitlines :: "string \<Rightarrow> string list" where
  "splitlines s = splitlines_from [] s"

text \<open>\<open>'\n'.join(xs)\<close>.\<close>

fun join_nl :: "string list \<Rightarrow> string" where
  "join_nl [] = []"
| "join_nl [x] = x"
| "join_nl (x # y # ys) = x @ [LF] @ join_nl (y # ys)"

text \<open>\<open>line.startswith(p)\<close>.\<close>

definition startswith :: "string \<Rightarrow> string \<Rightarrow> bool" where
  "startswith line p = (take (length p) line = p)"

text \<open>\<open>str(n)\<close> for a non-negative integer: its decimal digits.\<close>

definition digit :: "nat \<Rightarrow> char" where
  "digit d = ''0123456789'' ! d"

function str_nat :: "nat \<Rightarrow> string" where
  "str_nat n = (if n < 10 then [digit n] else str_nat (n div 10) @ [digit (n mod 10)])"
  by pat_completeness auto
termination
  by (relation "measure id") auto

declare str_nat.simps [simp del]

section \<open>The standard library's unified diff\<close>

text \<open>
  \<open>difflib.unified_diff(a, b, lineterm='', n=0)\<close>, as \<open>generate_diff_snippet\<close> calls
  it. The matching itself (\<open>SequenceMatcher(None, a, b).get_opcodes()\<close>) is a parameter
  \<open>get_opcodes\<close>; the grouping of the opcodes into hunks and the rendering of the hunks
  follow \<open>difflib.py\<close>. An opcode \<open>(tag, i1, i2, j1, j2)\<close> relates \<open>a[i1:i2]\<close> to
  \<open>b[j1:j2]\<close>, with \<open>i1 \<le> i2\<close> and \<open>j1 \<le> j2\<close>.
\<close>

datatype tag = Replace | Delete | Insert | Equal

type_synonym opcode = "tag \<times> nat \<times> nat \<times> nat \<times> nat"

text \<open>\<open>xs[i:j]\<close> for \<open>0 \<le> i\<close> and \<open>0 \<le> j\<close>.\<close>

definition slice :: "'a list \<Rightarrow> nat \<Rightarrow> nat \<Rightarrow> 'a list" where
  "slice xs i j = take (j - i) (drop i xs)"

fun fix_leading :: "nat \<Rightarrow> opcode list \<Rightarrow> opcode list" where
  "fix_leading n [] = []"
| "fix_leading n ((tag, i1, i2, j1, j2) # codes) =
     (if tag = Equal then (tag, max i1 (i2 - n), i2, max j1 (j2 - n), j2) # codes
      else (tag, i1, i2, j1, j2) # codes)"

fun fix_trailing :: "nat \<Rightarrow> opcode list \<Rightarrow> opcode list" where
  "fix_trailing n [] = []"
| "fix_trailing n [(tag, i1, i2, j1, j2)] =
     (if tag = Equal then [(tag, i1, min i2 (i1 + n), j1, min j2 (j1 + n))]
      else [(tag, i1, i2, j1, j2)])"
| "fix_trailing n (c # d # codes) = c # fix_trailing n (d # codes)"

text \<open>
  The loop of \<open>get_grouped_opcodes\<close>: \<open>grp\<close> is the hunk being collected
  (\<open>group\<close> in \<open>difflib.py\<close>), the result the hunks yielded.
\<close>

fun group_loop :: "nat \<Rightarrow> opcode list \<Rightarrow> opcode list \<Rightarrow> opcode list list" where
  "group_loop n grp [] =
     (if grp \<noteq> [] \<and> \<not> (length grp = 1 \<and> fst (hd grp) = Equal) then [grp] else [])"
| "group_loop n grp ((tag, i1, i2, j1, j2) # codes) =
     (if tag = Equal \<and> i2 - i1 > n + n
      then (grp @ [(tag, i1, min i2 (i1 + n), j1, min j2 (j1 + n))])
             # group_loop n [(tag, max i1 (i2 - n), i2, max j1 (j2 - n), j2)] codes
      else group_loop n (grp @ [(tag, i1, i2, j1, j2)]) codes)"

definition get_grouped_opcodes :: "nat \<Rightarrow> opcode list \<Rightarrow> opcode list list" where
  "get_grouped_opcodes n codes0 =
     (let codes = (if codes0 = [] then [(Equal, 0, 1, 0, 1)] else codes0);
          codes = fix_leading n codes;
          codes = fix_trailing n codes
      in group_loop n [] codes)"

definition format_range_unified :: "nat \<Rightarrow> nat \<Rightarrow> string" where
  "format_range_unified start stop =
     (let beginning = start + 1;
          len = stop - start
      in if len = 1 then str_nat beginning
         else str_nat (if len = 0 then beginning - 1 else beginning) @ '','' @ str_nat len)"

definition render_opcode :: "string list \<Rightarrow> string list \<Rightarrow> opcode \<Rightarrow> string list" where
  "render_opcode a b code =
     (case code of (tag, i1, i2, j1, j2) \<Rightarrow>
        if tag = Equal then map (\<lambda>line. '' '' @ line) (slice a i1 i2)
        else (if tag = Replace \<or> tag = Delete
              then map (\<lambda>line. ''-'' @ line) (slice a i1 i2) else [])
           @ (if tag = Replace \<or> tag = Insert
              then map (\<lambda>line. ''+'' @ line) (slice b j1 j2) else []))"

definition render_group :: "string list \<Rightarrow> string list \<Rightarrow> opcode list \<Rightarrow> string list" where
  "render_group a b grp =
     (case (hd grp, last grp) of ((t1, f1, f2, g1, g2), (t2, l1, l2, m1, m2)) \<Rightarrow>
        (''@@ -'' @ format_range_unified f1 l2 @ '' +'' @ format_range_unified g1 m2 @ '' @@'')
          # concat (map (render_opcode a b) grp))"

definition unified_diff ::
    "(string list \<Rightarrow> string list \<Rightarrow> opcode list) \<Rightarrow> string list \<Rightarrow> string list \<Rightarrow> string list" where
  "unified_diff get_opcodes a b =
     (let groups = get_grouped_opcodes 0 (get_opcodes a b)
      in if groups = [] then []
         else [''--- '', ''+++ ''] @ concat (map (render_group a b) groups))"

section \<open>diff\_generator.py\<close>

definition MAX_DIFF_LINES :: nat where
  "MAX_DIFF_LINES = 20"

definition MAX_LINE_LENGTH :: nat where
  "MAX_LINE_LENGTH = 200"

definition truncate_line :: "string \<Rightarrow> string" where
  "truncate_line line =
     (if length line > MAX_LINE_LENGTH then take MAX_LINE_LENGTH line @ ''...'' else line)"

definition is_header :: "string \<Rightarrow> bool" where
  "is_header line = (startswith line ''---'' \<or> startswith line ''+++'' \<or> startswith line ''@@'')"

definition more_lines :: "nat \<Rightarrow> string" where
  "more_lines k = ''... ('' @ str_nat k @ '' more lines)''"

definition more_changes :: "nat \<Rightarrow> string" where
  "more_changes k = ''... ('' @ str_nat k @ '' more changes)''"

text \<open>
  The lines of the diff that the loop of \<open>generate_diff_snippet\<close> keeps
  (\<open>filtered_lines\<close>).
\<close>

definition filtered_lines ::
    "(string list \<Rightarrow> string list \<Rightarrow> opcode list) \<Rightarrow> string \<Rightarrow> string \<Rightarrow> string list" where
  "filtered_lines get_opcodes old_text new_text =
     filter (\<lambda>line. \<not> is_header line)
       (unified_diff get_opcodes (splitlines old_text) (splitlines new_text))"

definition generate_diff_snippet ::
    "(string list \<Rightarrow> string list \<Rightarrow> opcode list) \<Rightarrow> string \<Rightarrow> string \<Rightarrow> string" where
  "generate_diff_snippet get_opcodes old_text new_text =
     (if old_text = [] then
        (let lines = take MAX_DIFF_LINES (splitlines new_text);
             truncated_lines = map truncate_line lines;
             snippet = join_nl (map (\<lambda>line. ''+ '' @ line) truncated_lines)
         in if length (splitlines new_text) > MAX_DIFF_LINES
            then snippet @ [LF] @ more_lines (length (splitlines new_text) - MAX_DIFF_LINES)
            else snippet)
      else
        (let filtered = filtered_lines get_opcodes old_text new_text;
             snippet_lines =
               (if length filtered > MAX_DIFF_LINES
                then take MAX_DIFF_LINES filtered
                       @ [more_changes (length filtered - MAX_DIFF_LINES)]
                else filtered);
             truncated_lines = map truncate_line snippet_lines
         in join_nl truncated_lines))"

section \<open>Stored state\<close>

text \<open>
  An item of the state table is a Python dict from attribute names to values. The
  values the program stores are strings and numbers; \<open>VNull\<close> is Python's \<open>None\<close>.
\<close>

datatype val = VStr string | VNum int | VNull

type_synonym item = "string \<rightharpoonup> val"

text \<open>\<open>d.get(k)\<close>: \<open>None\<close> for a missing key.\<close>

definition py_get :: "item \<Rightarrow> string \<Rightarrow> val" where
  "py_get d k = (case d k of None \<Rightarrow> VNull | Some v \<Rightarrow> v)"

text \<open>Python's truth value of a stored value.\<close>

fun truthy :: "val \<Rightarrow> bool" where
  "truthy (VStr s) = (s \<noteq> [])"
| "truthy (VNum n) = (n \<noteq> 0)"
| "truthy VNull = False"

datatype exn = ClientError | TypeError | AttributeError

text \<open>What \<open>datetime.fromisoformat\<close> makes of a string: it raises \<open>ValueError\<close> (with a
  message), or returns a datetime without UTC offset, or one with an offset, which is an
  instant in microseconds since the epoch.\<close>

datatype parsed = ValueError string | Naive | Aware int

record response =
  status_code :: int
  content :: "string option"
  etag :: "string option"
  last_modified :: "string option"

record url_config =
  url :: string
  selector :: "string option"

record change_record =
  change_url :: string
  previous_hash :: val
  new_hash :: string
  diff_snippet :: string
  is_new :: bool

datatype level = WARNING | ERROR

text \<open>
  The world a run acts on: the state table, the number of calls made so far to the
  outside (clock, network, table, mail), the warnings and errors logged (the calls of
  \<open>logger.info\<close> and \<open>logger.debug\<close> are left out), the conditional headers of every
  fetch, and the arguments of every call of \<open>send_digest_email\<close>.
\<close>

record world =
  table :: "string \<rightharpoonup> item"
  ticks :: nat
  logged :: "(level \<times> string) list"
  fetches :: "(string \<times> (string \<rightharpoonup> val)) list"
  digests :: "(change_record list \<times> nat) list"

text \<open>
  The collaborators that are not part of the pipeline, as functions; those whose answer
  may change during a run take the number of earlier calls. A raised exception is
  \<open>Inl\<close> of its message.
  \<^item> \<open>clock k\<close>: \<open>datetime.now(timezone.utc)\<close>, in microseconds since the epoch;
  \<^item> \<open>isoformat\<close>, \<open>fromisoformat\<close>: of \<open>datetime\<close>;
  \<^item> \<open>fetch_url k url user_agent conditional_headers\<close>: \<open>fetcher.fetch_url\<close>;
  \<^item> \<open>normalize_html content selector ignore_patterns\<close>, \<open>compute_hash\<close>: of \<open>normalizer\<close>;
  \<^item> \<open>get_item_fails k url\<close>, \<open>update_item_fails k url updates\<close>: the table call
    raises \<open>ClientError\<close>;
  \<^item> \<open>send_digest_email k changes total\<close>: \<open>Some\<close> message when it raises;
  \<^item> \<open>get_opcodes\<close>: of \<open>difflib.SequenceMatcher\<close>;
  \<^item> \<open>USER_AGENT\<close>: the environment variable.
\<close>

record env =
  clock :: "nat \<Rightarrow> int"
  isoformat :: "int \<Rightarrow> string"
  fromisoformat :: "string \<Rightarrow> parsed"
  fetch_url :: "nat \<Rightarrow> string \<Rightarrow> string \<Rightarrow> (string \<rightharpoonup> val) \<Rightarrow> string + response"
  normalize_html :: "string option \<Rightarrow> string option \<Rightarrow> string list \<Rightarrow> string + string"
  compute_hash :: "string \<Rightarrow> string"
  get_item_fails :: "nat \<Rightarrow> string \<Rightarrow> bool"
  update_item_fails :: "nat \<Rightarrow> string \<Rightarrow> item \<Rightarrow> bool"
  send_digest_email :: "nat \<Rightarrow> change_record list \<Rightarrow> nat \<Rightarrow> string option"
  get_opcodes :: "string list \<Rightarrow> string list \<Rightarrow> opcode list"
  USER_AGENT :: string

type_synonym 'a result = "(exn \<times> world) + ('a \<times> world)"

definition tick :: "world \<Rightarrow> world" where
  "tick w = w\<lparr>ticks := Suc (ticks w)\<rparr>"

definition log_msg :: "level \<Rightarrow> string \<Rightarrow> world \<Rightarrow> world" where
  "log_msg l m w = w\<lparr>logged := logged w @ [(l, m)]\<rparr>"

section \<open>dynamodb\_state.py\<close>

text \<open>
  \<open>get_state\<close>: the item, or \<open>None\<close> when there is none or the call fails with a
  \<open>ClientError\<close>, which is logged. (Failures of the table client that are no
  \<open>ClientError\<close> are outside the model.)
\<close>

definition get_state :: "env \<Rightarrow> string \<Rightarrow> world \<Rightarrow> item option \<times> world" where
  "get_state env u w =
     (if get_item_fails env (ticks w) u
      then (None, log_msg ERROR (''DynamoDB get_item failed for '' @ u) (tick w))
      else (table w u, tick w))"

text \<open>
  \<open>update_state\<close>: one \<open>SET k = :k\<close> clause for each key of \<open>updates\<close>. The table
  creates the item (with its key attribute) when it does not exist and overwrites
  exactly the attributes named. A \<open>ClientError\<close> is logged and raised again.
\<close>

definition update_state :: "env \<Rightarrow> string \<Rightarrow> item \<Rightarrow> world \<Rightarrow> unit result" where
  "update_state env u updates w =
     (if update_item_fails env (ticks w) u updates
      then Inl (ClientError, log_msg ERROR (''DynamoDB update_item failed for '' @ u) (tick w))
      else Inr ((), (tick w)\<lparr>table := (table w)(u \<mapsto>
             (case table w u of None \<Rightarrow> [''url'' \<mapsto> VStr u] | Some it \<Rightarrow> it) ++ updates)\<rparr>))"

definition touch_state :: "env \<Rightarrow> string \<Rightarrow> world \<Rightarrow> unit result" where
  "touch_state env u w =
     (let now = isoformat env (clock env (ticks w))
      in update_state env u [''last_checked_at'' \<mapsto> VStr now] (tick w))"

section \<open>app.py\<close>

text \<open>\<open>s.replace('Z', '+00:00')\<close>.\<close>

definition replace_Z :: "string \<Rightarrow> string" where
  "replace_Z s = concat (map (\<lambda>c. if c = CHR ''Z'' then ''+00:00'' else [c]) s)"

text \<open>
  \<open>hours_since\<close>: the difference of two instants is exact in microseconds;
  \<open>total_seconds() / 3600\<close> is taken as the exact quotient.
\<close>

definition hours_between :: "int \<Rightarrow> int \<Rightarrow> rat" where
  "hours_between now last_notified = of_int (now - last_notified) / 1000000 / 3600"

text \<open>
  \<open>should_notify\<close>. An empty dict has no \<open>last_notified_at\<close>, so \<open>not prev_state\<close> needs
  no case of its own. A stored value that is no string has no \<open>replace\<close>
  (\<open>AttributeError\<close>, caught); a datetime without offset cannot be subtracted from
  \<open>now\<close> (\<open>TypeError\<close>, not caught).
\<close>

definition should_notify :: "env \<Rightarrow> string \<Rightarrow> item option \<Rightarrow> int \<Rightarrow> world \<Rightarrow> bool result" where
  "should_notify env u prev_state cooldown_hours w =
     (if cooldown_hours \<le> 0 then Inr (True, w)
      else case prev_state of
        None \<Rightarrow> Inr (True, w)
      | Some st \<Rightarrow>
         (case st ''last_notified_at'' of
            None \<Rightarrow> Inr (True, w)
          | Some (VStr s) \<Rightarrow>
             (case fromisoformat env (replace_Z s) of
                ValueError e \<Rightarrow>
                  Inr (True, log_msg WARNING
                    (''Error parsing last_notified_at for '' @ u @ '': '' @ e) w)
              | Naive \<Rightarrow> Inl (TypeError, tick w)
              | Aware last_notified \<Rightarrow>
                 (let now = clock env (ticks w);
                      hours_since = hours_between now last_notified
                  in Inr (hours_since \<ge> of_int cooldown_hours, tick w)))
          | Some v \<Rightarrow>
              Inr (True, log_msg WARNING
                (''Error parsing last_notified_at for '' @ u @ '': AttributeError'') w)))"

text \<open>The conditional headers \<open>process_url\<close> builds from the stored validators.\<close>

definition conditional_headers :: "item option \<Rightarrow> (string \<rightharpoonup> val)" where
  "conditional_headers prev_state =
     (case prev_state of
        None \<Rightarrow> Map.empty
      | Some st \<Rightarrow>
         (let h = Map.empty;
              h = (case st ''etag'' of
                     Some v \<Rightarrow> if truthy v then h(''If-None-Match'' \<mapsto> v) else h
                   | None \<Rightarrow> h);
              h = (case st ''last_modified'' of
                     Some v \<Rightarrow> if truthy v then h(''If-Modified-Since'' \<mapsto> v) else h
                   | None \<Rightarrow> h)
          in h))"

text \<open>\<open>(prev_state.get('error_count', 0) if prev_state else 0) + 1\<close>.\<close>

definition next_error_count :: "item option \<Rightarrow> exn + int" where
  "next_error_count prev_state =
     (case prev_state of
        None \<Rightarrow> Inr (0 + 1)
      | Some st \<Rightarrow>
         (case st ''error_count'' of
            None \<Rightarrow> Inr (0 + 1)
          | Some (VNum n) \<Rightarrow> Inr (n + 1)
          | Some v \<Rightarrow> Inl TypeError))"

text \<open>
  The body of both \<open>except\<close> blocks of \<open>process_url\<close> (after a failed fetch and after
  a failed normalization), which differ in the logged text \<open>what\<close> only.
\<close>

definition record_error ::
    "env \<Rightarrow> string \<Rightarrow> item option \<Rightarrow> string \<Rightarrow> string \<Rightarrow> world \<Rightarrow> change_record option result" where
  "record_error env u prev_state what e w =
     (let w1 = log_msg ERROR (what @ u @ '': '' @ e) w
      in case next_error_count prev_state of
           Inl x \<Rightarrow> Inl (x, w1)
         | Inr error_count \<Rightarrow>
            (let now = isoformat env (clock env (ticks w1))
             in case update_state env u
                       [''error_count'' \<mapsto> VNum error_count,
                        ''last_error'' \<mapsto> VStr (take 500 e),
                        ''last_checked_at'' \<mapsto> VStr now] (tick w1) of
                  Inl x \<Rightarrow> Inl x
                | Inr (_, w2) \<Rightarrow> Inr (None, w2)))"

text \<open>
  \<open>generate_diff_snippet(prev_text or "", normalized_text)\<close>: a stored text that is
  true and no string has no \<open>splitlines\<close>.
\<close>

definition diff_against :: "env \<Rightarrow> val \<Rightarrow> string \<Rightarrow> exn + string" where
  "diff_against env prev_text normalized_text =
     (case (if truthy prev_text then prev_text else VStr []) of
        VStr old_text \<Rightarrow> Inr (generate_diff_snippet (get_opcodes env) old_text normalized_text)
      | _ \<Rightarrow> Inl AttributeError)"

text \<open>The \<open>state_update\<close> dict of a detected change, before \<open>last_notified_at\<close>.\<close>

definition state_update :: "string \<Rightarrow> string \<Rightarrow> string \<Rightarrow> response \<Rightarrow> item" where
  "state_update hash now normalized_text resp =
     (let upd = [''last_hash'' \<mapsto> VStr hash,
                 ''last_checked_at'' \<mapsto> VStr now,
                 ''last_changed_at'' \<mapsto> VStr now,
                 ''error_count'' \<mapsto> VNum 0,
                 ''normalized_text'' \<mapsto> VStr normalized_text];
          upd = (case etag resp of Some t \<Rightarrow> upd(''etag'' \<mapsto> VStr t) | None \<Rightarrow> upd);
          upd = (case last_modified resp of
                   Some t \<Rightarrow> upd(''last_modified'' \<mapsto> VStr t) | None \<Rightarrow> upd)
      in upd)"

text \<open>
  From ``Content changed or new URL'' to the end of \<open>process_url\<close>; \<open>now\<close> is the
  time read after normalization.
\<close>

definition content_changed ::
    "env \<Rightarrow> string \<Rightarrow> item option \<Rightarrow> int \<Rightarrow> response \<Rightarrow> string \<Rightarrow> string \<Rightarrow> string \<Rightarrow> world
      \<Rightarrow> change_record option result" where
  "content_changed env u prev_state cooldown_hours resp normalized_text hash now w =
     (let prev_hash = (case prev_state of None \<Rightarrow> VNull | Some st \<Rightarrow> py_get st ''last_hash'');
          prev_text =
            (case prev_state of None \<Rightarrow> VNull | Some st \<Rightarrow> py_get st ''normalized_text'');
          upd = state_update hash now normalized_text resp
      in case should_notify env u prev_state cooldown_hours w of
           Inl x \<Rightarrow> Inl x
         | Inr (True, w1) \<Rightarrow>
            (case diff_against env prev_text normalized_text of
               Inl x \<Rightarrow> Inl (x, w1)
             | Inr snippet \<Rightarrow>
                (case update_state env u (upd(''last_notified_at'' \<mapsto> VStr now)) w1 of
                   Inl x \<Rightarrow> Inl x
                 | Inr (_, w2) \<Rightarrow>
                     Inr (Some \<lparr>change_url = u, previous_hash = prev_hash, new_hash = hash,
                                diff_snippet = snippet, is_new = (prev_hash = VNull)\<rparr>, w2)))
         | Inr (False, w1) \<Rightarrow>
            (case update_state env u upd w1 of
               Inl x \<Rightarrow> Inl x
             | Inr (_, w2) \<Rightarrow> Inr (None, w2)))"

definition process_url ::
    "env \<Rightarrow> url_config \<Rightarrow> string list \<Rightarrow> int \<Rightarrow> world \<Rightarrow> change_record option result" where
  "process_url env cfg ignore_patterns cooldown_hours w =
     (let u = url cfg;
          (prev_state, w1) = get_state env u w;
          hdrs = conditional_headers prev_state;
          w2 = (tick w1)\<lparr>fetches := fetches w1 @ [(u, hdrs)]\<rparr>
      in case fetch_url env (ticks w1) u (USER_AGENT env) hdrs of
           Inl e \<Rightarrow> record_error env u prev_state ''Failed to fetch '' e w2
         | Inr resp \<Rightarrow>
            if status_code resp = 304 then
              (case touch_state env u w2 of
                 Inl x \<Rightarrow> Inl x
               | Inr (_, w3) \<Rightarrow> Inr (None, w3))
            else
              (case normalize_html env (content resp) (selector cfg) ignore_patterns of
                 Inl e \<Rightarrow>
                   record_error env u prev_state ''Failed to normalize content from '' e w2
               | Inr normalized_text \<Rightarrow>
                  (let hash = compute_hash env normalized_text;
                       now = isoformat env (clock env (ticks w2));
                       w3 = tick w2
                   in if prev_state \<noteq> None \<and> py_get (the prev_state) ''last_hash'' = VStr hash
                      then
                        (case update_state env u
                                [''last_checked_at'' \<mapsto> VStr now, ''error_count'' \<mapsto> VNum 0] w3 of
                           Inl x \<Rightarrow> Inl x
                         | Inr (_, w4) \<Rightarrow> Inr (None, w4))
                      else content_changed env u prev_state cooldown_hours resp
                             normalized_text hash now w3)))"

text \<open>The loop of \<open>lambda_handler\<close> over the configured URLs.\<close>

fun process_all ::
    "env \<Rightarrow> string list \<Rightarrow> int \<Rightarrow> change_record list \<Rightarrow> url_config list \<Rightarrow> world
      \<Rightarrow> change_record list result" where
  "process_all env ignore_patterns cooldown_hours changes [] w = Inr (changes, w)"
| "process_all env ignore_patterns cooldown_hours changes (cfg # cfgs) w =
     (case process_url env cfg ignore_patterns cooldown_hours w of
        Inl x \<Rightarrow> Inl x
      | Inr (change, w1) \<Rightarrow>
          process_all env ignore_patterns cooldown_hours
            (case change of None \<Rightarrow> changes | Some c \<Rightarrow> changes @ [c]) cfgs w1)"

datatype body = No_URLs_to_check | Check_completed (urls_checked: nat) (changes_detected: nat)

text \<open>
  \<open>lambda_handler\<close>, from the loaded configuration on (\<open>url_configs\<close>,
  \<open>ignore_patterns\<close>, \<open>cooldown_hours\<close>); it returns the status code and the body.
\<close>

definition lambda_handler ::
    "env \<Rightarrow> url_config list \<Rightarrow> string list \<Rightarrow> int \<Rightarrow> world \<Rightarrow> (int \<times> body) result" where
  "lambda_handler env url_configs ignore_patterns cooldown_hours w =
     (if url_configs = [] then Inr ((200, No_URLs_to_check), log_msg WARNING ''No URLs configured'' w)
      else case process_all env ignore_patterns cooldown_hours [] url_configs w of
        Inl x \<Rightarrow> Inl x
      | Inr (changes, w1) \<Rightarrow>
         (let w2 =
            (if changes \<noteq> [] then
               (let w' = (tick w1)\<lparr>digests := digests w1 @ [(changes, length url_configs)]\<rparr>
                in case send_digest_email env (ticks w1) changes (length url_configs) of
                     Some e \<Rightarrow> log_msg ERROR (''Failed to send digest email: '' @ e) w'
                   | None \<Rightarrow> w')
             else w1)
          in Inr ((200, Check_completed (length url_configs) (length changes)), w2)))"

section \<open>Observing a call\<close>

text \<open>The value a call returns (none when it raises), the exception it raises, and the
  world it leaves.\<close>

definition returned :: "'a result \<Rightarrow> 'a option" where
  "returned r = (case r of Inl _ \<Rightarrow> None | Inr (x, _) \<Rightarrow> Some x)"

definition raised :: "'a result \<Rightarrow> exn option" where
  "raised r = (case r of Inl (x, _) \<Rightarrow> Some x | Inr _ \<Rightarrow> None)"

definition world_after :: "'a result \<Rightarrow> world" where
  "world_after r = (case r of Inl (_, w) \<Rightarrow> w | Inr (_, w) \<Rightarrow> w)"

text \<open>The attribute \<open>k\<close> stored for the URL \<open>u\<close>.\<close>

definition stored :: "world \<Rightarrow> string \<Rightarrow> string \<Rightarrow> val option" where
  "stored w u k = (case table w u of None \<Rightarrow> None | Some it \<Rightarrow> it k)"

text \<open>The world of \<open>process_url\<close> once the state is read and the fetch is made.\<close>

definition after_fetch :: "env \<Rightarrow> url_config \<Rightarrow> world \<Rightarrow> world" where
  "after_fetch env cfg w =
     (tick (snd (get_state env (url cfg) w)))
       \<lparr>fetches := fetches (snd (get_state env (url cfg) w))
          @ [(url cfg, conditional_headers (fst (get_state env (url cfg) w)))]\<rparr>"

section \<open>An example deployment\<close>

text \<open>
  One monitored page, checked two hours after the epoch: the page is reachable, its
  text is now \<open>new\<close>, table and mail work. The stored state holds the text \<open>old\<close>,
  notified at the epoch. The matcher reports the whole old text replaced by the new
  one, as \<open>difflib\<close> does for texts without a common line.
\<close>

definition example_env :: env where
  "example_env =
     \<lparr>clock = (\<lambda>k. 7200000000),
      isoformat = (\<lambda>t. ''1970-01-01T02:00:00+00:00''),
      fromisoformat = (\<lambda>s.
        if s = ''1970-01-01T00:00:00+00:00'' then Aware 0
        else if s = ''1970-01-01T02:00:00+00:00'' then Aware 7200000000
        else if s = ''1970-01-01T00:00:00'' then Naive
        else ValueError ''Invalid isoformat string''),
      fetch_url = (\<lambda>k u ua h.
        Inr \<lparr>status_code = 200, content = Some ''<p>new</p>'', etag = None,
             last_modified = None\<rparr>),
      normalize_html = (\<lambda>c s p. Inr ''new''),
      compute_hash = (\<lambda>t. ''sha256 of '' @ t),
      get_item_fails = (\<lambda>k u. False),
      update_item_fails = (\<lambda>k u i. False),
      send_digest_email = (\<lambda>k c n. None),
      get_opcodes = (\<lambda>a b. [(Replace, 0, length a, 0, length b)]),
      USER_AGENT = ''Website-Diff-Checker/1.0''\<rparr>"

definition example_item :: item where
  "example_item =
     [''url'' \<mapsto> VStr ''https://example.com'',
      ''last_hash'' \<mapsto> VStr ''sha256 of old'',
      ''normalized_text'' \<mapsto> VStr ''old'',
      ''etag'' \<mapsto> VStr ''v1'',
      ''error_count'' \<mapsto> VNum 2,
      ''last_notified_at'' \<mapsto> VStr ''1970-01-01T00:00:00+00:00'']"

definition example_world :: world where
  "example_world =
     \<lparr>table = [''https://example.com'' \<mapsto> example_item], ticks = 0, logged = [],
      fetches = [], digests = []\<rparr>"

definition empty_world :: world where
  "empty_world = \<lparr>table = Map.empty, ticks = 0, logged = [], fetches = [], digests = []\<rparr>"

definition example_config :: url_config where
  "example_config = \<lparr>url = ''https://example.com'', selector = None\<rparr>"

definition other_config :: url_config where
  "other_config = \<lparr>url = ''https://example.org'', selector = None\<rparr>"

text \<open>The same deployment with a table that rejects every update.\<close>

definition table_down_env :: env where
  "table_down_env = example_env\<lparr>update_item_fails := \<lambda>k u i. True\<rparr>"

text \<open>The same deployment with a page whose text is 21 lines \<open>a\<close>.\<close>

definition long_page_env :: env where
  "long_page_env =
     example_env\<lparr>normalize_html := \<lambda>c s p. Inr (''a'' @ concat (replicate 20 (LF # ''a'')))\<rparr>"

text \<open>The same deployment with \<open>https://example.com\<close> timing out.\<close>

definition timeout_env :: env where
  "timeout_env =
     example_env\<lparr>fetch_url := \<lambda>k u ua h.
        if u = ''https://example.com'' then Inl ''Timeout: read timed out''
        else Inr \<lparr>status_code = 200, content = Some ''<p>new</p>'', etag = None,
                 last_modified = None\<rparr>\<rparr>"

text \<open>That deployment with a table that rejects every update.\<close>

definition timeout_table_down_env :: env where
  "timeout_table_down_env = timeout_env\<lparr>update_item_fails := \<lambda>k u i. True\<rparr>"

text \<open>The deployment with the timeout and a table whose reads fail.\<close>

definition timeout_read_down_env :: env where
  "timeout_read_down_env = timeout_env\<lparr>get_item_fails := \<lambda>k u. True\<rparr>"

text \<open>What the matcher reports for one line replaced by another, and for a first line
  kept and the 21 lines after it deleted.\<close>

definition one_line_replaced :: "string list \<Rightarrow> string list \<Rightarrow> opcode list" where
  "one_line_replaced a b = [(Replace, 0, 1, 0, 1)]"

definition block_deleted :: "string list \<Rightarrow> string list \<Rightarrow> opcode list" where
  "block_deleted a b = [(Equal, 0, 1, 0, 1), (Delete, 1, 22, 1, 1)]"

section \<open>Facts about strings and lines\<close>

lemma join_nl_snoc: "xs \<noteq> [] \<Longrightarrow> join_nl (xs @ [m]) = join_nl xs @ [LF] @ m"
  by (induction xs rule: join_nl.induct) auto

lemma truncate_line_long: "200 < length line \<Longrightarrow> truncate_line line = take 200 line @ ''...''"
  by (simp add: truncate_line_def MAX_LINE_LENGTH_def)

lemma truncate_line_short: "length line \<le> 200 \<Longrightarrow> truncate_line line = line"
  by (simp add: truncate_line_def MAX_LINE_LENGTH_def)

lemma splitlines_from_plain:
  "\<not> is_linebreak x \<Longrightarrow> splitlines_from cur (replicate (Suc n) x) = [cur @ replicate (Suc n) x]"
proof (induction n arbitrary: cur)
  case 0
  then show ?case by simp
next
  case (Suc n)
  have "splitlines_from cur (replicate (Suc (Suc n)) x)
          = splitlines_from (cur @ [x]) (replicate (Suc n) x)"
    using Suc.prems by (auto simp: is_linebreak_def)
  also have "\<dots> = [(cur @ [x]) @ replicate (Suc n) x]"
    using Suc.IH [OF Suc.prems] .
  finally show ?case by (simp add: replicate_app_Cons_same)
qed

lemma splitlines_plain:
  "\<not> is_linebreak x \<Longrightarrow> 0 < n \<Longrightarrow> splitlines (replicate n x) = [replicate n x]"
  using splitlines_from_plain [of x "[]" "n - 1"] by (simp add: splitlines_def)

lemma x_plain: "\<not> is_linebreak (CHR ''x'')"
  by (simp add: is_linebreak_def LF_def CR_def)

section \<open>The diff snippet\<close>

text \<open>The snippet of a new URL: the first 20 lines of the text, each cut by
  \<open>truncate_line\<close> and then prefixed, and the count of the lines left out.\<close>

lemma snippet_new_url:
  "generate_diff_snippet g [] new_text =
     join_nl (map (\<lambda>line. ''+ '' @ truncate_line line) (take 20 (splitlines new_text))
              @ (if 20 < length (splitlines new_text)
                 then [more_lines (length (splitlines new_text) - 20)] else []))"
proof (cases "20 < length (splitlines new_text)")
  case True
  then have ne: "map (\<lambda>line. ''+ '' @ truncate_line line) (take 20 (splitlines new_text)) \<noteq> []"
    by auto
  show ?thesis
    using True join_nl_snoc [OF ne]
    by (simp add: generate_diff_snippet_def MAX_DIFF_LINES_def Let_def comp_def)
next
  case False
  then show ?thesis
    by (simp add: generate_diff_snippet_def MAX_DIFF_LINES_def Let_def comp_def)
qed

text \<open>The snippet of a changed text: the first 20 of the lines kept from the diff and
  the count of the kept lines left out, each cut by \<open>truncate_line\<close>.\<close>

lemma snippet_changed:
  "old_text \<noteq> [] \<Longrightarrow> generate_diff_snippet g old_text new_text =
     join_nl (map truncate_line
       (if 20 < length (filtered_lines g old_text new_text)
        then take 20 (filtered_lines g old_text new_text)
               @ [more_changes (length (filtered_lines g old_text new_text) - 20)]
        else filtered_lines g old_text new_text))"
  by (simp add: generate_diff_snippet_def MAX_DIFF_LINES_def Let_def)

text \<open>
  With no context lines asked for, the hunks hold no line of an equal block, so every
  line of the diff is a header, a removal or an addition, and every line the snippet
  keeps is a removal or an addition.
\<close>

lemma group_loop_no_context:
  "\<forall>(t, i1, i2, j1, j2) \<in> set grp. t = Equal \<longrightarrow> i2 \<le> i1 \<Longrightarrow>
   g \<in> set (group_loop 0 grp codes) \<Longrightarrow>
   \<forall>(t, i1, i2, j1, j2) \<in> set g. t = Equal \<longrightarrow> i2 \<le> i1"
proof (induction codes arbitrary: grp)
  case Nil
  then show ?case by (auto split: if_splits)
next
  case (Cons code codes)
  obtain t i1 i2 j1 j2 where code: "code = (t, i1, i2, j1, j2)"
    by (cases code)
  show ?case
  proof (cases "t = Equal \<and> i2 - i1 > 0")
    case True
    with Cons.prems(2) code
    have "g = grp @ [(t, i1, min i2 i1, j1, min j2 j1)]
        \<or> g \<in> set (group_loop 0 [(t, max i1 i2, i2, max j1 j2, j2)] codes)"
      by simp
    then show ?thesis
    proof
      assume "g = grp @ [(t, i1, min i2 i1, j1, min j2 j1)]"
      then show ?thesis using Cons.prems(1) by auto
    next
      assume "g \<in> set (group_loop 0 [(t, max i1 i2, i2, max j1 j2, j2)] codes)"
      then show ?thesis by (rule Cons.IH [rotated]) simp
    qed
  next
    case False
    with Cons.prems(2) code
    have "g \<in> set (group_loop 0 (grp @ [(t, i1, i2, j1, j2)]) codes)"
      by auto
    then show ?thesis
      by (rule Cons.IH [rotated]) (use Cons.prems(1) False in auto)
  qed
qed

lemma render_opcode_signs:
  "(case code of (t, i1, i2, j1, j2) \<Rightarrow> t = Equal \<longrightarrow> i2 \<le> i1) \<Longrightarrow>
   line \<in> set (render_opcode a b code) \<Longrightarrow> take 1 line = ''-'' \<or> take 1 line = ''+''"
  by (auto simp: render_opcode_def slice_def split: prod.splits if_splits)

lemma unified_diff_lines:
  assumes "line \<in> set (unified_diff g a b)"
  shows "is_header line \<or> take 1 line = ''-'' \<or> take 1 line = ''+''"
proof -
  let ?groups = "get_grouped_opcodes 0 (g a b)"
  from assms have "line = ''--- '' \<or> line = ''+++ ''
      \<or> (\<exists>grp \<in> set ?groups. line \<in> set (render_group a b grp))"
    by (auto simp: unified_diff_def Let_def split: if_splits)
  then consider "line = ''--- ''" | "line = ''+++ ''"
    | grp where "grp \<in> set ?groups" "line \<in> set (render_group a b grp)"
    by blast
  then show ?thesis
  proof cases
    case 1
    then show ?thesis by (simp add: is_header_def startswith_def)
  next
    case 2
    then show ?thesis by (simp add: is_header_def startswith_def)
  next
    case 3
    have inv: "\<forall>(t, i1, i2, j1, j2) \<in> set grp. t = Equal \<longrightarrow> i2 \<le> i1"
      using 3(1) unfolding get_grouped_opcodes_def Let_def
      by (rule group_loop_no_context [rotated]) simp
    from 3(2) have "startswith line ''@@'' \<or> (\<exists>code \<in> set grp. line \<in> set (render_opcode a b code))"
      by (auto simp: render_group_def startswith_def split: prod.splits)
    then show ?thesis
    proof
      assume "startswith line ''@@''"
      then show ?thesis by (simp add: is_header_def)
    next
      assume "\<exists>code \<in> set grp. line \<in> set (render_opcode a b code)"
      then obtain code where c: "code \<in> set grp" "line \<in> set (render_opcode a b code)"
        by blast
      have "case code of (t, i1, i2, j1, j2) \<Rightarrow> t = Equal \<longrightarrow> i2 \<le> i1"
        using inv c(1) by blast
      then show ?thesis using render_opcode_signs c(2) by blast
    qed
  qed
qed

lemma filtered_lines_are_changes:
  "line \<in> set (filtered_lines g old_text new_text) \<Longrightarrow>
   take 1 line = ''-'' \<or> take 1 line = ''+''"
  using unified_diff_lines [of line g "splitlines old_text" "splitlines new_text"]
  by (auto simp: filtered_lines_def)

text \<open>
  C6, at an input where the claim fails. The old text is \<open>keep\<close> followed by 21 lines
  \<open>-- x\<close>, the new text is \<open>keep\<close>; the matcher reports one equal line and 21
  deleted lines, so the diff has, after its two file headers, 21 removal lines
  \<open>--- x\<close>. The header test of \<open>generate_diff_snippet\<close> drops all of them: the
  snippet is empty, with no marker for the 21 changes left out.
\<close>

theorem dashed_removals_vanish_without_marker:
  "length (filter (\<lambda>line. take 1 line = ''-'')
       (drop 2 (unified_diff block_deleted
          (splitlines (''keep'' @ concat (replicate 21 (LF # ''-- x'')))) (splitlines ''keep''))))
     = 21
   \<and> generate_diff_snippet block_deleted
       (''keep'' @ concat (replicate 21 (LF # ''-- x''))) ''keep'' = []"
  by code_simp

text \<open>
  C7, as stated, fails for a new URL: a line of 200 characters is emitted with its
  prefix as a line of 202 characters, uncut and without ellipsis.
\<close>

theorem new_url_line_of_202_characters:
  "generate_diff_snippet one_line_replaced [] (replicate 200 (CHR ''x''))
     = ''+ '' @ replicate 200 (CHR ''x'')
   \<and> length (generate_diff_snippet one_line_replaced [] (replicate 200 (CHR ''x''))) = 202"
  by (simp add: snippet_new_url splitlines_plain x_plain truncate_line_short)

text \<open>
  C7, amended. In both branches every line goes through \<open>truncate_line\<close>, which cuts a
  line of more than 200 characters to its first 200 characters and appends \<open>...\<close>, and
  leaves a shorter line as it is. For a new URL (empty old text) it is applied to the
  line of the new text before the prefix \<open>+ \<close> is added, and not to the count marker;
  otherwise it is applied to each line kept from the diff, sign included, and to the
  count marker. A line of 300 characters comes out of \<open>truncate_line\<close> as 200
  characters and the ellipsis.
\<close>

theorem truncation_in_both_branches:
  "(old_text = [] \<longrightarrow>
      generate_diff_snippet g old_text new_text =
        join_nl (map (\<lambda>line. ''+ '' @ truncate_line line) (take 20 (splitlines new_text))
                 @ (if 20 < length (splitlines new_text)
                    then [more_lines (length (splitlines new_text) - 20)] else [])))
   \<and> (old_text \<noteq> [] \<longrightarrow>
      generate_diff_snippet g old_text new_text =
        join_nl (map truncate_line
          (if 20 < length (filtered_lines g old_text new_text)
           then take 20 (filtered_lines g old_text new_text)
                  @ [more_changes (length (filtered_lines g old_text new_text) - 20)]
           else filtered_lines g old_text new_text)))
   \<and> (200 < length line \<longrightarrow> truncate_line line = take 200 line @ ''...'')
   \<and> (length line \<le> 200 \<longrightarrow> truncate_line line = line)
   \<and> (length line = 300 \<longrightarrow> length (truncate_line line) = 203)"
  using snippet_new_url [of g new_text] snippet_changed [of old_text g new_text]
  by (auto simp: truncate_line_long truncate_line_short)

lemma filtered_replace_one:
  "filtered_lines (\<lambda>a b. [(Replace, 0, Suc 0, 0, Suc 0)]) ''a'' (replicate 300 (CHR ''x''))
     = [''-a'', ''+'' @ replicate 300 (CHR ''x'')]"
proof -
  have s: "splitlines (replicate 300 (CHR ''x'')) = [replicate 300 (CHR ''x'')]"
    by (simp add: splitlines_plain x_plain)
  have a: "splitlines ''a'' = [''a'']"
    by code_simp
  have u: "unified_diff (\<lambda>a b. [(Replace, 0, Suc 0, 0, Suc 0)]) [''a'']
             [replicate 300 (CHR ''x'')]
      = [''--- '', ''+++ '', ''@@ -1 +1 @@'', ''-a'', ''+'' @ replicate 300 (CHR ''x'')]"
    by (simp add: unified_diff_def get_grouped_opcodes_def render_group_def render_opcode_def
        slice_def format_range_unified_def str_nat.simps digit_def Let_def)
  show ?thesis
    unfolding filtered_lines_def s a u
    by (simp add: is_header_def startswith_def)
qed

theorem truncation_in_both_branches_witness:
  "generate_diff_snippet (\<lambda>a b. []) [] (replicate 300 (CHR ''x''))
     = ''+ '' @ replicate 200 (CHR ''x'') @ ''...''
   \<and> generate_diff_snippet (\<lambda>a b. [(Replace, 0, Suc 0, 0, Suc 0)]) ''a''
        (replicate 300 (CHR ''x''))
     = ''-a'' @ [LF] @ ''+'' @ replicate 199 (CHR ''x'') @ ''...''
   \<and> length (truncate_line (replicate 300 (CHR ''x''))) = 203"
proof -
  have s: "splitlines (replicate 300 (CHR ''x'')) = [replicate 300 (CHR ''x'')]"
    by (simp add: splitlines_plain x_plain)
  have 1: "generate_diff_snippet (\<lambda>a b. []) [] (replicate 300 (CHR ''x''))
     = ''+ '' @ replicate 200 (CHR ''x'') @ ''...''"
    using truncation_in_both_branches
      [of "[]" "\<lambda>a b. []" "replicate 300 (CHR ''x'')" "replicate 300 (CHR ''x'')"]
    by (simp add: s)
  have 2: "generate_diff_snippet (\<lambda>a b. [(Replace, 0, Suc 0, 0, Suc 0)]) ''a''
        (replicate 300 (CHR ''x''))
     = ''-a'' @ [LF] @ ''+'' @ replicate 199 (CHR ''x'') @ ''...''"
    using truncation_in_both_branches
      [of "''a''" "\<lambda>a b. [(Replace, 0, Suc 0, 0, Suc 0)]" "replicate 300 (CHR ''x'')" "''-a''"]
    by (simp add: filtered_replace_one truncate_line_def MAX_LINE_LENGTH_def)
  have 3: "length (truncate_line (replicate 300 (CHR ''x''))) = 203"
    using truncation_in_both_branches
      [of "[]" "\<lambda>a b. []" "[]" "replicate 300 (CHR ''x'')"]
    by simp
  show ?thesis using 1 2 3 by simp
qed

text \<open>
  C8, at an input where the claim fails. The old text is the line \<open>-- a\<close>, the new
  text the line \<open>b\<close>; the matcher reports one replaced line, and the diff is
  \<open>--- \<close>, \<open>+++ \<close>, \<open>@@ -1 +1 @@\<close>, \<open>--- a\<close>, \<open>+b\<close>. The removed line \<open>--- a\<close>
  starts like a header and is dropped with the headers: the snippet is \<open>+b\<close> alone.
\<close>

theorem dashed_removal_dropped_as_header:
  "unified_diff one_line_replaced (splitlines ''-- a'') (splitlines ''b'')
     = [''--- '', ''+++ '', ''@@ -1 +1 @@'', ''--- a'', ''+b'']
   \<and> generate_diff_snippet one_line_replaced ''-- a'' ''b'' = ''+b''"
  by code_simp

section \<open>The notification decision\<close>

lemma should_notify_true_iff:
  "returned (should_notify env u prev_state cooldown_hours w) = Some True \<longleftrightarrow>
     cooldown_hours \<le> 0 \<or> prev_state = None
     \<or> (\<exists>st. prev_state = Some st \<and>
          (case st ''last_notified_at'' of
             None \<Rightarrow> True
           | Some (VStr s) \<Rightarrow>
              (case fromisoformat env (replace_Z s) of
                 ValueError e \<Rightarrow> True
               | Naive \<Rightarrow> False
               | Aware t \<Rightarrow> hours_between (clock env (ticks w)) t \<ge> of_int cooldown_hours)
           | Some v \<Rightarrow> True))"
  by (auto simp: should_notify_def returned_def Let_def
      split: option.splits val.splits parsed.splits)

text \<open>A stored value that is no string, or that \<open>fromisoformat\<close> rejects, gives true and
  one logged warning.\<close>

lemma should_notify_malformed_warns:
  "0 < cooldown_hours \<Longrightarrow> st ''last_notified_at'' = Some v \<Longrightarrow>
   (case v of VStr s \<Rightarrow> (case fromisoformat env (replace_Z s) of
                           ValueError e \<Rightarrow> True | _ \<Rightarrow> False)
    | _ \<Rightarrow> True) \<Longrightarrow>
   \<exists>m. should_notify env u (Some st) cooldown_hours w = Inr (True, log_msg WARNING m w)"
  by (auto simp: should_notify_def split: val.splits parsed.splits)

text \<open>
  C3, at an input where the claim fails. The stored \<open>last_notified_at\<close> is a string
  that \<open>fromisoformat\<close> parses into a datetime without UTC offset (such as
  \<open>2020-01-01T00:00:00\<close>), and the cooldown is positive. Subtracting it from the
  offset-aware \<open>now\<close> raises \<open>TypeError\<close>, which the handler for \<open>ValueError\<close> and
  \<open>AttributeError\<close> does not catch: \<open>should_notify\<close> raises instead of returning.
\<close>

theorem naive_timestamp_raises:
  "0 < cooldown_hours \<Longrightarrow> st ''last_notified_at'' = Some (VStr s) \<Longrightarrow>
   fromisoformat env (replace_Z s) = Naive \<Longrightarrow>
   should_notify env u (Some st) cooldown_hours w = Inl (TypeError, tick w)"
  by (simp add: should_notify_def)

theorem naive_timestamp_raises_witness:
  "should_notify example_env ''https://example.com''
     (Some [''last_notified_at'' \<mapsto> VStr ''1970-01-01T00:00:00'']) 6 example_world
   = Inl (TypeError, tick example_world)"
  using naive_timestamp_raises [of 6 "[''last_notified_at'' \<mapsto> VStr ''1970-01-01T00:00:00'']"
      "''1970-01-01T00:00:00''" example_env "''https://example.com''" example_world]
  by (simp add: example_env_def replace_Z_def)

section \<open>Processing one URL\<close>

text \<open>
  The calls of \<open>process_url\<close> to the outside are numbered from \<open>ticks w\<close>, the number
  of calls made before: the state is read at \<open>ticks w\<close>, the fetch is call
  \<open>ticks w + 1\<close>, the clock is read at \<open>ticks w + 2\<close> (in the error branches, and for
  \<open>now\<close> after the normalization), \<open>should_notify\<close> reads the clock at \<open>ticks w + 3\<close>
  when it compares times, and the table is updated by the call after the last clock
  reading.
\<close>

lemma table_tick [simp]: "table (tick w) = table w"
  by (simp add: tick_def)

lemma table_log_msg [simp]: "table (log_msg l m w) = table w"
  by (simp add: log_msg_def)

lemma ticks_tick [simp]: "ticks (tick w) = Suc (ticks w)"
  by (simp add: tick_def)

lemma ticks_log_msg [simp]: "ticks (log_msg l m w) = ticks w"
  by (simp add: log_msg_def)

lemma table_update_state:
  "table (world_after (update_state env u updates w)) =
     (if update_item_fails env (ticks w) u updates then table w
      else (table w)(u \<mapsto> (case table w u of None \<Rightarrow> [''url'' \<mapsto> VStr u] | Some it \<Rightarrow> it) ++ updates))"
  by (simp add: update_state_def world_after_def)

lemma stored_update_state_frame:
  "updates k = None \<Longrightarrow> k \<noteq> ''url'' \<Longrightarrow>
   stored (world_after (update_state env u updates w)) v k = stored w v k"
  by (auto simp: stored_def table_update_state map_add_def split: option.splits)

lemma table_should_notify:
  "table (world_after (should_notify env u prev_state cooldown_hours w)) = table w"
  by (auto simp: should_notify_def world_after_def Let_def
      split: option.splits val.splits parsed.splits)

lemma stored_cong: "table w' = table w \<Longrightarrow> stored w' v k = stored w v k"
  by (simp add: stored_def)

lemma stored_record_error_frame:
  "k \<noteq> ''url'' \<Longrightarrow> k \<noteq> ''error_count'' \<Longrightarrow> k \<noteq> ''last_error'' \<Longrightarrow> k \<noteq> ''last_checked_at'' \<Longrightarrow>
   stored (world_after (record_error env u prev_state what e w)) v k = stored w v k"
proof (cases "next_error_count prev_state")
  case (Inl x)
  then show ?thesis
    by (simp add: record_error_def world_after_def stored_def Let_def)
next
  case (Inr c)
  assume k: "k \<noteq> ''url''" "k \<noteq> ''error_count''" "k \<noteq> ''last_error''" "k \<noteq> ''last_checked_at''"
  let ?upd = "[''error_count'' \<mapsto> VNum c, ''last_error'' \<mapsto> VStr (take 500 e),
      ''last_checked_at'' \<mapsto> VStr (isoformat env (clock env (ticks (log_msg ERROR (what @ u @ '': '' @ e) w))))]"
  let ?w1 = "tick (log_msg ERROR (what @ u @ '': '' @ e) w)"
  have "world_after (record_error env u prev_state what e w) = world_after (update_state env u ?upd ?w1)"
    using Inr by (simp add: record_error_def world_after_def Let_def split: sum.splits prod.splits)
  moreover have "stored (world_after (update_state env u ?upd ?w1)) v k = stored ?w1 v k"
    using k by (intro stored_update_state_frame) simp_all
  ultimately show ?thesis by (simp add: stored_def)
qed


lemma table_get_state: "table (snd (get_state env u w)) = table w"
  by (simp add: get_state_def)

lemma ticks_get_state: "ticks (snd (get_state env u w)) = Suc (ticks w)"
  by (simp add: get_state_def)

lemma fst_get_state:
  "fst (get_state env u w) = (if get_item_fails env (ticks w) u then None else table w u)"
  by (simp add: get_state_def)

lemma world_after_returning:
  "world_after (case r of Inl x \<Rightarrow> Inl x | Inr (a, w2) \<Rightarrow> Inr (f a, w2)) = world_after r"
  by (simp add: world_after_def split: sum.splits prod.splits)

lemma returned_returning:
  "returned (case r of Inl x \<Rightarrow> Inl x | Inr (a, w2) \<Rightarrow> Inr (f a, w2)) = map_option f (returned r)"
  by (simp add: returned_def split: sum.splits prod.splits)

lemma returned_update_state:
  "returned (update_state env u updates w) =
     (if update_item_fails env (ticks w) u updates then None else Some ())"
  by (simp add: update_state_def returned_def)

lemma state_update_last_notified_at [simp]:
  "state_update hash now text resp ''last_notified_at'' = None"
  by (simp add: state_update_def Let_def split: option.splits)

lemma stored_touch_state_frame:
  "k \<noteq> ''url'' \<Longrightarrow> k \<noteq> ''last_checked_at'' \<Longrightarrow>
   stored (world_after (touch_state env u w)) v k = stored w v k"
  using stored_update_state_frame [of "[''last_checked_at'' \<mapsto> VStr (isoformat env (clock env (ticks w)))]" k env u "tick w" v]
  by (simp add: touch_state_def Let_def stored_def)

lemma table_after_fetch [simp]: "table (after_fetch env cfg w) = table w"
  by (simp add: after_fetch_def get_state_def Let_def)

lemma ticks_after_fetch [simp]: "ticks (after_fetch env cfg w) = Suc (Suc (ticks w))"
  by (simp add: after_fetch_def get_state_def Let_def)

lemma process_url_unfold:
  "process_url env cfg ig cd w =
     (case fetch_url env (Suc (ticks w)) (url cfg) (USER_AGENT env)
             (conditional_headers (fst (get_state env (url cfg) w))) of
        Inl e \<Rightarrow> record_error env (url cfg) (fst (get_state env (url cfg) w))
                   ''Failed to fetch '' e (after_fetch env cfg w)
      | Inr resp \<Rightarrow>
          if status_code resp = 304 then
            (case touch_state env (url cfg) (after_fetch env cfg w) of
               Inl x \<Rightarrow> Inl x | Inr (a, w3) \<Rightarrow> Inr (None, w3))
          else
            (case normalize_html env (content resp) (selector cfg) ig of
               Inl e \<Rightarrow> record_error env (url cfg) (fst (get_state env (url cfg) w))
                          ''Failed to normalize content from '' e (after_fetch env cfg w)
             | Inr ntext \<Rightarrow>
                 if fst (get_state env (url cfg) w) \<noteq> None
                    \<and> py_get (the (fst (get_state env (url cfg) w))) ''last_hash''
                        = VStr (compute_hash env ntext)
                 then
                   (case update_state env (url cfg)
                           [''last_checked_at'' \<mapsto>
                              VStr (isoformat env (clock env (Suc (Suc (ticks w))))),
                            ''error_count'' \<mapsto> VNum 0] (tick (after_fetch env cfg w)) of
                      Inl x \<Rightarrow> Inl x | Inr (a, w4) \<Rightarrow> Inr (None, w4))
                 else content_changed env (url cfg) (fst (get_state env (url cfg) w)) cd resp
                        ntext (compute_hash env ntext)
                        (isoformat env (clock env (Suc (Suc (ticks w)))))
                        (tick (after_fetch env cfg w))))"
proof -
  obtain p w1 where g: "get_state env (url cfg) w = (p, w1)"
    by (cases "get_state env (url cfg) w")
  have t: "ticks w1 = Suc (ticks w)"
    using g by (auto simp: get_state_def split: if_splits)
  show ?thesis
    by (simp add: process_url_def after_fetch_def Let_def g t tick_def split: sum.splits)
qed

lemma process_url_fetch_failed:
  "fetch_url env (Suc (ticks w)) (url cfg) (USER_AGENT env)
       (conditional_headers (fst (get_state env (url cfg) w))) = Inl e \<Longrightarrow>
   process_url env cfg ig cd w =
     record_error env (url cfg) (fst (get_state env (url cfg) w)) ''Failed to fetch '' e
       (after_fetch env cfg w)"
  by (simp add: process_url_unfold)

lemma process_url_not_modified:
  "fetch_url env (Suc (ticks w)) (url cfg) (USER_AGENT env)
       (conditional_headers (fst (get_state env (url cfg) w))) = Inr resp \<Longrightarrow>
   status_code resp = 304 \<Longrightarrow>
   process_url env cfg ig cd w =
     (case touch_state env (url cfg) (after_fetch env cfg w) of
        Inl x \<Rightarrow> Inl x | Inr (a, w3) \<Rightarrow> Inr (None, w3))"
  by (simp add: process_url_unfold)

lemma process_url_normalize_failed:
  "fetch_url env (Suc (ticks w)) (url cfg) (USER_AGENT env)
       (conditional_headers (fst (get_state env (url cfg) w))) = Inr resp \<Longrightarrow>
   status_code resp \<noteq> 304 \<Longrightarrow>
   normalize_html env (content resp) (selector cfg) ig = Inl e \<Longrightarrow>
   process_url env cfg ig cd w =
     record_error env (url cfg) (fst (get_state env (url cfg) w))
       ''Failed to normalize content from '' e (after_fetch env cfg w)"
  by (simp add: process_url_unfold)

lemma process_url_unchanged:
  "fetch_url env (Suc (ticks w)) (url cfg) (USER_AGENT env)
       (conditional_headers (fst (get_state env (url cfg) w))) = Inr resp \<Longrightarrow>
   status_code resp \<noteq> 304 \<Longrightarrow>
   normalize_html env (content resp) (selector cfg) ig = Inr ntext \<Longrightarrow>
   fst (get_state env (url cfg) w) = Some st \<Longrightarrow>
   py_get st ''last_hash'' = VStr (compute_hash env ntext) \<Longrightarrow>
   process_url env cfg ig cd w =
     (case update_state env (url cfg)
             [''last_checked_at'' \<mapsto> VStr (isoformat env (clock env (Suc (Suc (ticks w))))),
              ''error_count'' \<mapsto> VNum 0] (tick (after_fetch env cfg w)) of
        Inl x \<Rightarrow> Inl x | Inr (a, w4) \<Rightarrow> Inr (None, w4))"
  by (simp add: process_url_unfold)

lemma process_url_changed:
  "fetch_url env (Suc (ticks w)) (url cfg) (USER_AGENT env)
       (conditional_headers (fst (get_state env (url cfg) w))) = Inr resp \<Longrightarrow>
   status_code resp \<noteq> 304 \<Longrightarrow>
   normalize_html env (content resp) (selector cfg) ig = Inr ntext \<Longrightarrow>
   (\<forall>st. fst (get_state env (url cfg) w) = Some st \<longrightarrow>
         py_get st ''last_hash'' \<noteq> VStr (compute_hash env ntext)) \<Longrightarrow>
   process_url env cfg ig cd w =
     content_changed env (url cfg) (fst (get_state env (url cfg) w)) cd resp ntext
       (compute_hash env ntext) (isoformat env (clock env (Suc (Suc (ticks w)))))
       (tick (after_fetch env cfg w))"
  by (auto simp: process_url_unfold)

lemma content_changed_frame:
  assumes "\<And>c. returned (content_changed env u prev_state cd resp text hash now w) \<noteq> Some (Some c)"
  shows "stored (world_after (content_changed env u prev_state cd resp text hash now w)) v
           ''last_notified_at'' = stored w v ''last_notified_at''"
proof (cases "should_notify env u prev_state cd w")
  case (Inl x)
  then have "world_after (content_changed env u prev_state cd resp text hash now w)
      = world_after (should_notify env u prev_state cd w)"
    by (simp add: content_changed_def Let_def world_after_def)
  then show ?thesis
    by (simp add: stored_def table_should_notify)
next
  case (Inr p)
  obtain b w1 where p: "p = (b, w1)" by (cases p)
  have t1: "table w1 = table w"
    using table_should_notify [of env u prev_state cd w] Inr p by (simp add: world_after_def)
  show ?thesis
  proof (cases b)
    case False
    have "world_after (content_changed env u prev_state cd resp text hash now w)
      = world_after (update_state env u (state_update hash now text resp) w1)"
      using Inr p False
      by (simp add: content_changed_def Let_def world_after_def split: sum.splits prod.splits)
    then show ?thesis
      using stored_update_state_frame [of "state_update hash now text resp" "''last_notified_at''" env u w1 v] t1
      by (simp add: stored_def)
  next
    case True
    show ?thesis
    proof (cases "diff_against env (case prev_state of None \<Rightarrow> VNull | Some st \<Rightarrow> py_get st ''normalized_text'') text")
      case (Inl x)
      then have "world_after (content_changed env u prev_state cd resp text hash now w) = w1"
        using Inr p True by (simp add: content_changed_def Let_def world_after_def)
      then show ?thesis using t1 by (simp add: stored_def)
    next
      case (Inr snippet)
      note snippet = this
      show ?thesis
      proof (cases "update_state env u ((state_update hash now text resp)(''last_notified_at'' \<mapsto> VStr now)) w1")
        case (Inl xw)
        then have "update_item_fails env (ticks w1) u ((state_update hash now text resp)(''last_notified_at'' \<mapsto> VStr now))"
          by (simp add: update_state_def split: if_splits)
        then have "table (world_after (update_state env u ((state_update hash now text resp)(''last_notified_at'' \<mapsto> VStr now)) w1)) = table w1"
          by (simp add: table_update_state)
        moreover have "world_after (content_changed env u prev_state cd resp text hash now w)
          = world_after (update_state env u ((state_update hash now text resp)(''last_notified_at'' \<mapsto> VStr now)) w1)"
          using \<open>should_notify env u prev_state cd w = Inr p\<close> p True snippet Inl
          by (simp add: content_changed_def Let_def world_after_def)
        ultimately show ?thesis using t1 by (simp add: stored_def)
      next
        case (Inr q)
        then have "\<exists>c. returned (content_changed env u prev_state cd resp text hash now w) = Some (Some c)"
          using \<open>should_notify env u prev_state cd w = Inr p\<close> p True snippet
          by (simp add: content_changed_def Let_def returned_def split: prod.splits)
        with assms show ?thesis by blast
      qed
    qed
  qed
qed

lemma process_url_last_notified_frame:
  assumes "\<And>c. returned (process_url env cfg ig cd w) \<noteq> Some (Some c)"
  shows "stored (world_after (process_url env cfg ig cd w)) v ''last_notified_at''
           = stored w v ''last_notified_at''"
proof (cases "fetch_url env (Suc (ticks w)) (url cfg) (USER_AGENT env)
       (conditional_headers (fst (get_state env (url cfg) w)))")
  case (Inl e)
  show ?thesis
    unfolding process_url_fetch_failed [OF Inl]
    by (simp add: stored_record_error_frame) (simp add: stored_def)
next
  case (Inr resp)
  note fetched = this
  show ?thesis
  proof (cases "status_code resp = 304")
    case True
    show ?thesis
      unfolding process_url_not_modified [OF fetched True] world_after_returning
      by (simp add: stored_touch_state_frame) (simp add: stored_def)
  next
    case False
    note ok = this
    show ?thesis
    proof (cases "normalize_html env (content resp) (selector cfg) ig")
      case (Inl e)
      show ?thesis
        unfolding process_url_normalize_failed [OF fetched ok Inl]
        by (simp add: stored_record_error_frame) (simp add: stored_def)
    next
      case (Inr ntext)
      note ntext = this
      show ?thesis
      proof (cases "\<exists>st. fst (get_state env (url cfg) w) = Some st \<and>
               py_get st ''last_hash'' = VStr (compute_hash env ntext)")
        case True
        then obtain st where st: "fst (get_state env (url cfg) w) = Some st"
          "py_get st ''last_hash'' = VStr (compute_hash env ntext)" by blast
        show ?thesis
          unfolding process_url_unchanged [OF fetched ok ntext st] world_after_returning
          by (simp add: stored_update_state_frame) (simp add: stored_def)
      next
        case False
        then have ch: "\<forall>st. fst (get_state env (url cfg) w) = Some st \<longrightarrow>
             py_get st ''last_hash'' \<noteq> VStr (compute_hash env ntext)" by blast
        have eq: "process_url env cfg ig cd w =
           content_changed env (url cfg) (fst (get_state env (url cfg) w)) cd resp ntext
             (compute_hash env ntext) (isoformat env (clock env (Suc (Suc (ticks w)))))
             (tick (after_fetch env cfg w))"
          by (rule process_url_changed [OF fetched ok ntext ch])
        show ?thesis
          using assms content_changed_frame [of env "url cfg" "fst (get_state env (url cfg) w)" cd resp ntext
              "compute_hash env ntext" "isoformat env (clock env (Suc (Suc (ticks w))))" "tick (after_fetch env cfg w)" v]
          unfolding eq by (simp add: stored_def)
      qed
    qed
  qed
qed


lemma should_notify_suppressed:
  "0 < cd \<Longrightarrow> st ''last_notified_at'' = Some (VStr s) \<Longrightarrow>
   fromisoformat env (replace_Z s) = Aware t \<Longrightarrow>
   hours_between (clock env (ticks w)) t < of_int cd \<Longrightarrow>
   should_notify env u (Some st) cd w = Inr (False, tick w)"
  by (simp add: should_notify_def Let_def)

lemma content_changed_suppressed:
  "should_notify env u prev_state cd w = Inr (False, w1) \<Longrightarrow>
   content_changed env u prev_state cd resp ntext hash now w =
     (case update_state env u (state_update hash now ntext resp) w1 of
        Inl x \<Rightarrow> Inl x | Inr (a, w2) \<Rightarrow> Inr (None, w2))"
  by (simp add: content_changed_def Let_def)

lemma state_update_fields:
  "state_update hash now ntext resp ''last_hash'' = Some (VStr hash)"
  "state_update hash now ntext resp ''normalized_text'' = Some (VStr ntext)"
  "state_update hash now ntext resp ''last_changed_at'' = Some (VStr now)"
  "state_update hash now ntext resp ''last_checked_at'' = Some (VStr now)"
  "state_update hash now ntext resp ''error_count'' = Some (VNum 0)"
  by (simp_all add: state_update_def Let_def split: option.splits)

lemma record_error_never_emits:
  "returned (record_error env u prev_state what e w) \<noteq> Some (Some c)"
  by (simp add: record_error_def returned_def Let_def split: sum.splits prod.splits)

lemma content_changed_emits:
  "returned (content_changed env u prev_state cd resp ntext hash now w) = Some (Some c) \<Longrightarrow>
   stored (world_after (content_changed env u prev_state cd resp ntext hash now w)) u
     ''last_notified_at'' = Some (VStr now)"
  by (auto simp: content_changed_def Let_def returned_def world_after_def stored_def
      update_state_def split: sum.splits prod.splits bool.splits if_splits)

lemma process_url_emits:
  assumes "returned (process_url env cfg ig cd w) = Some (Some c)"
  shows "stored (world_after (process_url env cfg ig cd w)) (url cfg) ''last_notified_at''
           = Some (VStr (isoformat env (clock env (Suc (Suc (ticks w))))))"
proof (cases "fetch_url env (Suc (ticks w)) (url cfg) (USER_AGENT env)
       (conditional_headers (fst (get_state env (url cfg) w)))")
  case (Inl e)
  show ?thesis
    using assms unfolding process_url_fetch_failed [OF Inl]
    by (simp add: record_error_never_emits)
next
  case (Inr resp)
  note fetched = this
  show ?thesis
  proof (cases "status_code resp = 304")
    case True
    show ?thesis
      using assms unfolding process_url_not_modified [OF fetched True] returned_returning
      by (cases "returned (touch_state env (url cfg) (after_fetch env cfg w))") simp_all
  next
    case False
    note ok = this
    show ?thesis
    proof (cases "normalize_html env (content resp) (selector cfg) ig")
      case (Inl e)
      show ?thesis
        using assms unfolding process_url_normalize_failed [OF fetched ok Inl]
        by (simp add: record_error_never_emits)
    next
      case (Inr ntext)
      note ntext = this
      show ?thesis
      proof (cases "\<exists>st. fst (get_state env (url cfg) w) = Some st \<and>
               py_get st ''last_hash'' = VStr (compute_hash env ntext)")
        case True
        then obtain st where st: "fst (get_state env (url cfg) w) = Some st"
          "py_get st ''last_hash'' = VStr (compute_hash env ntext)" by blast
        show ?thesis
          using assms unfolding process_url_unchanged [OF fetched ok ntext st] returned_returning
          by (simp add: returned_update_state split: if_splits)
      next
        case False
        then have ch: "\<forall>st. fst (get_state env (url cfg) w) = Some st \<longrightarrow>
             py_get st ''last_hash'' \<noteq> VStr (compute_hash env ntext)" by blast
        show ?thesis
          using assms unfolding process_url_changed [OF fetched ok ntext ch]
          by (rule content_changed_emits)
      qed
    qed
  qed
qed

text \<open>
  C1. Take a target whose state is read, whose fetch and normalization succeed, whose new
  hash differs from the stored one, and whose cooldown suppresses the notification (the
  cooldown is positive and fewer hours than that have passed since the stored
  \<open>last_notified_at\<close>). If the table accepts the update, \<open>process_url\<close> returns no
  change record and the item then holds the new hash, the new text, \<open>last_changed_at\<close>
  and \<open>last_checked_at\<close> equal to \<open>now\<close>, error count 0, and the \<open>last_notified_at\<close> it
  held before. Moreover, in every call of \<open>process_url\<close>, whatever its outcome, the
  stored \<open>last_notified_at\<close> of any URL changes only if the call returns a change record,
  and a call that returns a change record has stored \<open>now\<close> as \<open>last_notified_at\<close>.
\<close>

theorem suppressed_change_is_persisted:
  "(\<not> get_item_fails env (ticks w) (url cfg)
    \<and> table w (url cfg) = Some st
    \<and> fetch_url env (Suc (ticks w)) (url cfg) (USER_AGENT env) (conditional_headers (Some st))
        = Inr resp
    \<and> status_code resp \<noteq> 304
    \<and> normalize_html env (content resp) (selector cfg) ig = Inr ntext
    \<and> py_get st ''last_hash'' \<noteq> VStr (compute_hash env ntext)
    \<and> 0 < cd
    \<and> st ''last_notified_at'' = Some (VStr s)
    \<and> fromisoformat env (replace_Z s) = Aware t
    \<and> hours_between (clock env (ticks w + 3)) t < of_int cd
    \<and> now = isoformat env (clock env (ticks w + 2))
    \<and> \<not> update_item_fails env (ticks w + 4) (url cfg)
          (state_update (compute_hash env ntext) now ntext resp)
    \<and> w' = world_after (process_url env cfg ig cd w)
    \<longrightarrow> returned (process_url env cfg ig cd w) = Some None
      \<and> stored w' (url cfg) ''last_hash'' = Some (VStr (compute_hash env ntext))
      \<and> stored w' (url cfg) ''normalized_text'' = Some (VStr ntext)
      \<and> stored w' (url cfg) ''last_changed_at'' = Some (VStr now)
      \<and> stored w' (url cfg) ''last_checked_at'' = Some (VStr now)
      \<and> stored w' (url cfg) ''error_count'' = Some (VNum 0)
      \<and> stored w' (url cfg) ''last_notified_at'' = Some (VStr s))
   \<and> ((\<forall>c. returned (process_url env cfg ig cd w) \<noteq> Some (Some c))
      \<longrightarrow> stored (world_after (process_url env cfg ig cd w)) v ''last_notified_at''
            = stored w v ''last_notified_at'')
   \<and> (returned (process_url env cfg ig cd w) = Some (Some c)
      \<longrightarrow> stored (world_after (process_url env cfg ig cd w)) (url cfg) ''last_notified_at''
            = Some (VStr (isoformat env (clock env (ticks w + 2)))))"
proof (intro conjI impI)
  assume h: "\<not> get_item_fails env (ticks w) (url cfg)
    \<and> table w (url cfg) = Some st
    \<and> fetch_url env (Suc (ticks w)) (url cfg) (USER_AGENT env) (conditional_headers (Some st))
        = Inr resp
    \<and> status_code resp \<noteq> 304
    \<and> normalize_html env (content resp) (selector cfg) ig = Inr ntext
    \<and> py_get st ''last_hash'' \<noteq> VStr (compute_hash env ntext)
    \<and> 0 < cd
    \<and> st ''last_notified_at'' = Some (VStr s)
    \<and> fromisoformat env (replace_Z s) = Aware t
    \<and> hours_between (clock env (ticks w + 3)) t < of_int cd
    \<and> now = isoformat env (clock env (ticks w + 2))
    \<and> \<not> update_item_fails env (ticks w + 4) (url cfg)
          (state_update (compute_hash env ntext) now ntext resp)
    \<and> w' = world_after (process_url env cfg ig cd w)"
  let ?u = "url cfg"
  let ?upd = "state_update (compute_hash env ntext) now ntext resp"
  let ?w3 = "tick (after_fetch env cfg w)"
  have g: "fst (get_state env ?u w) = Some st"
    using h by (simp add: fst_get_state)
  have now: "now = isoformat env (clock env (Suc (Suc (ticks w))))"
    using h by simp
  have sn: "should_notify env ?u (Some st) cd ?w3 = Inr (False, tick ?w3)"
    using h by (intro should_notify_suppressed [where s = s and t = t]) (simp_all add: numeral_3_eq_3)
  have p: "process_url env cfg ig cd w =
      (case update_state env ?u ?upd (tick ?w3) of
         Inl x \<Rightarrow> Inl x | Inr (a, w2) \<Rightarrow> Inr (None, w2))"
    using h g process_url_changed [of env w cfg resp ig ntext cd]
      content_changed_suppressed [OF sn, of resp ntext "compute_hash env ntext" now]
    by (simp add: now)
  have ok: "\<not> update_item_fails env (Suc (Suc (Suc (Suc (ticks w))))) ?u ?upd"
    using h by (clarsimp simp: eval_nat_numeral)
  have r: "returned (process_url env cfg ig cd w) = Some None"
    unfolding p returned_returning by (simp add: returned_update_state ok)
  have w': "table w' ?u = Some (st ++ ?upd)"
    using h ok unfolding p world_after_returning
    by (simp add: table_update_state)
  show "returned (process_url env cfg ig cd w) = Some None" by (rule r)
  show "stored w' ?u ''last_hash'' = Some (VStr (compute_hash env ntext))"
    by (simp add: stored_def w' map_add_def state_update_fields)
  show "stored w' ?u ''normalized_text'' = Some (VStr ntext)"
    by (simp add: stored_def w' map_add_def state_update_fields)
  show "stored w' ?u ''last_changed_at'' = Some (VStr now)"
    by (simp add: stored_def w' map_add_def state_update_fields)
  show "stored w' ?u ''last_checked_at'' = Some (VStr now)"
    by (simp add: stored_def w' map_add_def state_update_fields)
  show "stored w' ?u ''error_count'' = Some (VNum 0)"
    by (simp add: stored_def w' map_add_def state_update_fields)
  have lna: "st ''last_notified_at'' = Some (VStr s)"
    using h by blast
  show "stored w' ?u ''last_notified_at'' = Some (VStr s)"
    by (simp add: stored_def w' map_add_def lna)
next
  assume "\<forall>c. returned (process_url env cfg ig cd w) \<noteq> Some (Some c)"
  then show "stored (world_after (process_url env cfg ig cd w)) v ''last_notified_at''
            = stored w v ''last_notified_at''"
    by (intro process_url_last_notified_frame) blast
next
  assume "returned (process_url env cfg ig cd w) = Some (Some c)"
  then show "stored (world_after (process_url env cfg ig cd w)) (url cfg) ''last_notified_at''
            = Some (VStr (isoformat env (clock env (ticks w + 2))))"
    using process_url_emits [of env cfg ig cd w c] by simp
qed

lemma content_changed_world_after:
  "world_after (content_changed env u prev_state cd resp ntext hash now w)
      = world_after (should_notify env u prev_state cd w)
   \<or> world_after (content_changed env u prev_state cd resp ntext hash now w)
      = world_after (update_state env u (state_update hash now ntext resp)
          (world_after (should_notify env u prev_state cd w)))
   \<or> world_after (content_changed env u prev_state cd resp ntext hash now w)
      = world_after (update_state env u
          ((state_update hash now ntext resp)(''last_notified_at'' \<mapsto> VStr now))
          (world_after (should_notify env u prev_state cd w)))"
  by (simp add: content_changed_def Let_def world_after_def
      split: sum.splits prod.splits bool.splits)

lemma unchanged_fields_update_state:
  "fetches (world_after (update_state env u updates w)) = fetches w
   \<and> digests (world_after (update_state env u updates w)) = digests w"
  by (simp add: update_state_def world_after_def tick_def log_msg_def)

lemma unchanged_fields_should_notify:
  "fetches (world_after (should_notify env u prev_state cd w)) = fetches w
   \<and> digests (world_after (should_notify env u prev_state cd w)) = digests w"
  by (simp add: should_notify_def world_after_def tick_def log_msg_def Let_def
      split: option.splits val.splits parsed.splits)

lemma unchanged_fields_content_changed:
  "fetches (world_after (content_changed env u prev_state cd resp ntext hash now w)) = fetches w
   \<and> digests (world_after (content_changed env u prev_state cd resp ntext hash now w)) = digests w"
  using content_changed_world_after [of env u prev_state cd resp ntext hash now w]
    unchanged_fields_update_state unchanged_fields_should_notify
  by metis

lemma unchanged_fields_record_error:
  "fetches (world_after (record_error env u prev_state what e w)) = fetches w
   \<and> digests (world_after (record_error env u prev_state what e w)) = digests w"
  by (simp add: record_error_def update_state_def world_after_def tick_def log_msg_def Let_def
      split: sum.splits prod.splits)

lemma unchanged_fields_touch_state:
  "fetches (world_after (touch_state env u w)) = fetches w
   \<and> digests (world_after (touch_state env u w)) = digests w"
  by (simp add: touch_state_def update_state_def world_after_def tick_def log_msg_def Let_def)

lemma fetches_after_fetch:
  "fetches (after_fetch env cfg w)
     = fetches w @ [(url cfg, conditional_headers (fst (get_state env (url cfg) w)))]"
  by (simp add: after_fetch_def get_state_def tick_def log_msg_def)

lemma digests_after_fetch: "digests (after_fetch env cfg w) = digests w"
  by (simp add: after_fetch_def get_state_def tick_def log_msg_def)

lemma fetches_tick [simp]: "fetches (tick w) = fetches w"
  by (simp add: tick_def)

lemma digests_tick [simp]: "digests (tick w) = digests w"
  by (simp add: tick_def)

lemma process_url_world_after:
  "(\<exists>what e. world_after (process_url env cfg ig cd w)
        = world_after (record_error env (url cfg) (fst (get_state env (url cfg) w)) what e
            (after_fetch env cfg w)))
   \<or> world_after (process_url env cfg ig cd w)
        = world_after (touch_state env (url cfg) (after_fetch env cfg w))
   \<or> (\<exists>now. world_after (process_url env cfg ig cd w)
        = world_after (update_state env (url cfg)
            [''last_checked_at'' \<mapsto> VStr now, ''error_count'' \<mapsto> VNum 0]
            (tick (after_fetch env cfg w))))
   \<or> (\<exists>resp ntext hash now.
         fetch_url env (Suc (ticks w)) (url cfg) (USER_AGENT env)
           (conditional_headers (fst (get_state env (url cfg) w))) = Inr resp
         \<and> process_url env cfg ig cd w
            = content_changed env (url cfg) (fst (get_state env (url cfg) w)) cd resp ntext
                hash now (tick (after_fetch env cfg w)))"
proof (cases "fetch_url env (Suc (ticks w)) (url cfg) (USER_AGENT env)
       (conditional_headers (fst (get_state env (url cfg) w)))")
  case (Inl e)
  show ?thesis
    unfolding process_url_fetch_failed [OF Inl] by blast
next
  case (Inr resp)
  note fetched = this
  show ?thesis
  proof (cases "status_code resp = 304")
    case True
    show ?thesis
      unfolding process_url_not_modified [OF fetched True] world_after_returning by blast
  next
    case False
    note ok = this
    show ?thesis
    proof (cases "normalize_html env (content resp) (selector cfg) ig")
      case (Inl e)
      show ?thesis
        unfolding process_url_normalize_failed [OF fetched ok Inl] by blast
    next
      case (Inr ntext)
      note ntext = this
      show ?thesis
      proof (cases "\<exists>st. fst (get_state env (url cfg) w) = Some st \<and>
               py_get st ''last_hash'' = VStr (compute_hash env ntext)")
        case True
        then obtain st where st: "fst (get_state env (url cfg) w) = Some st"
          "py_get st ''last_hash'' = VStr (compute_hash env ntext)" by blast
        show ?thesis
          unfolding process_url_unchanged [OF fetched ok ntext st] world_after_returning
          by blast
      next
        case False
        then have ch: "\<forall>st. fst (get_state env (url cfg) w) = Some st \<longrightarrow>
             py_get st ''last_hash'' \<noteq> VStr (compute_hash env ntext)" by blast
        show ?thesis
          using process_url_changed [OF fetched ok ntext ch] fetched by blast
      qed
    qed
  qed
qed

lemma process_url_fetches_digests:
  "fetches (world_after (process_url env cfg ig cd w))
     = fetches w @ [(url cfg, conditional_headers (fst (get_state env (url cfg) w)))]
   \<and> digests (world_after (process_url env cfg ig cd w)) = digests w"
  using process_url_world_after [of env cfg ig cd w]
  by (auto simp: unchanged_fields_record_error unchanged_fields_touch_state
      unchanged_fields_update_state unchanged_fields_content_changed
      fetches_after_fetch digests_after_fetch)

lemma process_all_digests:
  "digests (world_after (process_all env ig cd changes cfgs w)) = digests w"
proof (induction cfgs arbitrary: changes w)
  case Nil
  then show ?case by (simp add: world_after_def)
next
  case (Cons cfg cfgs)
  show ?case
  proof (cases "process_url env cfg ig cd w")
    case (Inl x)
    then show ?thesis
      using process_url_fetches_digests [of env cfg ig cd w]
      by (simp add: world_after_def)
  next
    case (Inr p)
    obtain change w1 where p: "p = (change, w1)" by (cases p)
    have "digests w1 = digests w"
      using process_url_fetches_digests [of env cfg ig cd w] Inr p
      by (simp add: world_after_def)
    then show ?thesis
      using Inr p Cons.IH by simp
  qed
qed

theorem suppressed_change_is_persisted_witness:
  "returned (process_url example_env example_config [] 6 example_world) = Some None
   \<and> stored (world_after (process_url example_env example_config [] 6 example_world))
        ''https://example.com'' ''last_hash'' = Some (VStr ''sha256 of new'')
   \<and> stored (world_after (process_url example_env example_config [] 6 example_world))
        ''https://example.com'' ''normalized_text'' = Some (VStr ''new'')
   \<and> stored (world_after (process_url example_env example_config [] 6 example_world))
        ''https://example.com'' ''last_changed_at'' = Some (VStr ''1970-01-01T02:00:00+00:00'')
   \<and> stored (world_after (process_url example_env example_config [] 6 example_world))
        ''https://example.com'' ''error_count'' = Some (VNum 0)
   \<and> stored (world_after (process_url example_env example_config [] 6 example_world))
        ''https://example.com'' ''last_notified_at'' = Some (VStr ''1970-01-01T00:00:00+00:00'')"
proof -
  let ?resp = "\<lparr>status_code = 200, content = Some ''<p>new</p>'', etag = None,
                 last_modified = None\<rparr>"
  have h: "\<not> get_item_fails example_env (ticks example_world) (url example_config)
    \<and> table example_world (url example_config) = Some example_item
    \<and> fetch_url example_env (Suc (ticks example_world)) (url example_config)
         (USER_AGENT example_env) (conditional_headers (Some example_item)) = Inr ?resp
    \<and> status_code ?resp \<noteq> 304
    \<and> normalize_html example_env (content ?resp) (selector example_config) [] = Inr ''new''
    \<and> py_get example_item ''last_hash'' \<noteq> VStr (compute_hash example_env ''new'')
    \<and> (0::int) < 6
    \<and> example_item ''last_notified_at'' = Some (VStr ''1970-01-01T00:00:00+00:00'')
    \<and> fromisoformat example_env (replace_Z ''1970-01-01T00:00:00+00:00'') = Aware 0
    \<and> hours_between (clock example_env (ticks example_world + 3)) 0 < of_int 6
    \<and> ''1970-01-01T02:00:00+00:00'' = isoformat example_env (clock example_env (ticks example_world + 2))
    \<and> \<not> update_item_fails example_env (ticks example_world + 4) (url example_config)
          (state_update (compute_hash example_env ''new'') ''1970-01-01T02:00:00+00:00'' ''new'' ?resp)
    \<and> world_after (process_url example_env example_config [] 6 example_world)
        = world_after (process_url example_env example_config [] 6 example_world)"
    by (simp add: example_env_def example_world_def example_config_def example_item_def
        py_get_def replace_Z_def hours_between_def)
  show ?thesis
    using suppressed_change_is_persisted [where env = example_env and w = example_world
        and cfg = example_config and st = example_item and resp = ?resp and ig = "[]"
        and ntext = "''new''" and cd = 6 and s = "''1970-01-01T00:00:00+00:00''" and t = 0
        and now = "''1970-01-01T02:00:00+00:00''"
        and w' = "world_after (process_url example_env example_config [] 6 example_world)",
        THEN conjunct1, rule_format, OF h]
    by (simp add: example_config_def example_env_def)
qed

lemma record_error_counted:
  "next_error_count prev_state = Inr n \<Longrightarrow>
   record_error env u prev_state what e w =
     (case update_state env u
             [''error_count'' \<mapsto> VNum n, ''last_error'' \<mapsto> VStr (take 500 e),
              ''last_checked_at'' \<mapsto> VStr (isoformat env (clock env (ticks w)))]
             (tick (log_msg ERROR (what @ u @ '': '' @ e) w)) of
        Inl x \<Rightarrow> Inl x | Inr (a, w2) \<Rightarrow> Inr (None, w2))"
  by (simp add: record_error_def Let_def)

lemma process_url_failure:
  "fetch_url env (Suc (ticks w)) (url cfg) (USER_AGENT env)
       (conditional_headers (fst (get_state env (url cfg) w))) = Inl e
   \<or> (fetch_url env (Suc (ticks w)) (url cfg) (USER_AGENT env)
       (conditional_headers (fst (get_state env (url cfg) w))) = Inr resp
      \<and> status_code resp \<noteq> 304
      \<and> normalize_html env (content resp) (selector cfg) ig = Inl e) \<Longrightarrow>
   \<exists>what. process_url env cfg ig cd w =
     record_error env (url cfg) (fst (get_state env (url cfg) w)) what e (after_fetch env cfg w)"
  using process_url_fetch_failed process_url_normalize_failed by blast

text \<open>
  C4, as stated, fails when the read of the state fails: \<open>get_state\<close> then returns
  \<open>None\<close>, and after the failed fetch \<open>process_url\<close> returns normally and writes the
  error count 1 over the stored count 2.
\<close>

theorem failed_read_resets_error_count:
  "stored example_world ''https://example.com'' ''error_count'' = Some (VNum 2)
   \<and> returned (process_url timeout_read_down_env example_config [] 6 example_world) = Some None
   \<and> stored (world_after (process_url timeout_read_down_env example_config [] 6 example_world))
        ''https://example.com'' ''error_count'' = Some (VNum 1)"
  by code_simp

lemma next_error_count_read:
  "next_error_count prev = Inr n \<Longrightarrow>
   n = (case prev of None \<Rightarrow> 0
        | Some st \<Rightarrow> (case st ''error_count'' of Some (VNum m) \<Rightarrow> m | _ \<Rightarrow> 0)) + 1"
  by (auto simp: next_error_count_def split: option.splits val.splits)

lemma record_error_uncounted:
  "next_error_count prev_state = Inl x \<Longrightarrow>
   raised (record_error env u prev_state what e w) = Some x"
  by (simp add: record_error_def raised_def Let_def)

text \<open>
  C4, amended. Let the fetch of a target raise, or its normalization, with message \<open>e\<close>,
  and let \<open>prev\<close> be the state \<open>get_state\<close> returned, which is the stored item, or
  \<open>None\<close> when there is none or when the read failed. Then \<open>process_url\<close> returns no
  change record, and the stored hash and text of every URL are what they were. If the
  error count in \<open>prev\<close> is absent or a number, the new count \<open>n\<close> is that count (0
  when absent or when \<open>prev\<close> is \<open>None\<close>) plus one, and when the table accepts the
  update the call returns and the item holds \<open>n\<close> as error count, the first 500
  characters of \<open>e\<close> as \<open>last_error\<close> and the current time as \<open>last_checked_at\<close>; when
  the table rejects it the call raises \<open>ClientError\<close>. If the error count in \<open>prev\<close> is
  neither, the call raises \<open>TypeError\<close>.
\<close>

theorem failure_counted_from_the_state_read:
  "(fetch_url env (Suc (ticks w)) (url cfg) (USER_AGENT env) (conditional_headers prev) = Inl e
     \<or> (fetch_url env (Suc (ticks w)) (url cfg) (USER_AGENT env) (conditional_headers prev)
          = Inr resp
        \<and> status_code resp \<noteq> 304
        \<and> normalize_html env (content resp) (selector cfg) ig = Inl e))
   \<and> prev = fst (get_state env (url cfg) w)
   \<and> now = isoformat env (clock env (ticks w + 2))
   \<and> upd = [''error_count'' \<mapsto> VNum n, ''last_error'' \<mapsto> VStr (take 500 e),
            ''last_checked_at'' \<mapsto> VStr now]
   \<and> w' = world_after (process_url env cfg ig cd w)
   \<longrightarrow> returned (process_url env cfg ig cd w) \<noteq> Some (Some c)
     \<and> stored w' v ''last_hash'' = stored w v ''last_hash''
     \<and> stored w' v ''normalized_text'' = stored w v ''normalized_text''
     \<and> prev = (if get_item_fails env (ticks w) (url cfg) then None else table w (url cfg))
     \<and> (next_error_count prev = Inr n \<longrightarrow>
           n = (case prev of None \<Rightarrow> 0
                | Some st \<Rightarrow> (case st ''error_count'' of Some (VNum m) \<Rightarrow> m | _ \<Rightarrow> 0)) + 1
           \<and> (\<not> update_item_fails env (ticks w + 3) (url cfg) upd \<longrightarrow>
                 returned (process_url env cfg ig cd w) = Some None
                 \<and> stored w' (url cfg) ''error_count'' = Some (VNum n)
                 \<and> stored w' (url cfg) ''last_error'' = Some (VStr (take 500 e))
                 \<and> stored w' (url cfg) ''last_checked_at'' = Some (VStr now))
           \<and> (update_item_fails env (ticks w + 3) (url cfg) upd \<longrightarrow>
                 raised (process_url env cfg ig cd w) = Some ClientError))
     \<and> (next_error_count prev = Inl x \<longrightarrow> raised (process_url env cfg ig cd w) = Some x)"
proof (intro impI)
  assume h: "(fetch_url env (Suc (ticks w)) (url cfg) (USER_AGENT env) (conditional_headers prev) = Inl e
     \<or> (fetch_url env (Suc (ticks w)) (url cfg) (USER_AGENT env) (conditional_headers prev)
          = Inr resp
        \<and> status_code resp \<noteq> 304
        \<and> normalize_html env (content resp) (selector cfg) ig = Inl e))
   \<and> prev = fst (get_state env (url cfg) w)
   \<and> now = isoformat env (clock env (ticks w + 2))
   \<and> upd = [''error_count'' \<mapsto> VNum n, ''last_error'' \<mapsto> VStr (take 500 e),
            ''last_checked_at'' \<mapsto> VStr now]
   \<and> w' = world_after (process_url env cfg ig cd w)"
  let ?u = "url cfg"
  let ?upd = "[''error_count'' \<mapsto> VNum n, ''last_error'' \<mapsto> VStr (take 500 e),
      ''last_checked_at'' \<mapsto> VStr (isoformat env (clock env (Suc (Suc (ticks w)))))]"
  have prev: "prev = fst (get_state env ?u w)"
    using h by blast
  have upd: "upd = ?upd"
    using h by simp
  have now: "now = isoformat env (clock env (Suc (Suc (ticks w))))"
    using h by simp
  have w': "w' = world_after (process_url env cfg ig cd w)"
    using h by blast
  obtain what where p: "process_url env cfg ig cd w =
      record_error env ?u prev what e (after_fetch env cfg w)"
    using h process_url_failure [of env w cfg e resp ig cd] unfolding prev by blast
  have frame: "stored w' v k = stored w v k"
    if "k \<noteq> ''url''" "k \<noteq> ''error_count''" "k \<noteq> ''last_error''" "k \<noteq> ''last_checked_at''"
    for k
    unfolding w' p using that by (simp add: stored_record_error_frame) (simp add: stored_def)
  have counted: "n = (case prev of None \<Rightarrow> 0
                | Some st \<Rightarrow> (case st ''error_count'' of Some (VNum m) \<Rightarrow> m | _ \<Rightarrow> 0)) + 1
           \<and> (\<not> update_item_fails env (ticks w + 3) (url cfg) upd \<longrightarrow>
                 returned (process_url env cfg ig cd w) = Some None
                 \<and> stored w' (url cfg) ''error_count'' = Some (VNum n)
                 \<and> stored w' (url cfg) ''last_error'' = Some (VStr (take 500 e))
                 \<and> stored w' (url cfg) ''last_checked_at'' = Some (VStr now))
           \<and> (update_item_fails env (ticks w + 3) (url cfg) upd \<longrightarrow>
                 raised (process_url env cfg ig cd w) = Some ClientError)"
    if n: "next_error_count prev = Inr n"
  proof -
    have p': "process_url env cfg ig cd w =
        (case update_state env ?u ?upd
                (tick (log_msg ERROR (what @ ?u @ '': '' @ e) (after_fetch env cfg w))) of
           Inl x \<Rightarrow> Inl x | Inr (a, w2) \<Rightarrow> Inr (None, w2))"
      unfolding p record_error_counted [OF n] by simp
    have good: "returned (process_url env cfg ig cd w) = Some None
                 \<and> stored w' ?u ''error_count'' = Some (VNum n)
                 \<and> stored w' ?u ''last_error'' = Some (VStr (take 500 e))
                 \<and> stored w' ?u ''last_checked_at'' = Some (VStr now)"
      if "\<not> update_item_fails env (ticks w + 3) ?u upd"
    proof -
      from that have ok: "\<not> update_item_fails env (Suc (Suc (Suc (ticks w)))) ?u ?upd"
        by (simp add: upd eval_nat_numeral)
      have t: "table w' ?u
          = Some ((case table w ?u of None \<Rightarrow> [''url'' \<mapsto> VStr ?u] | Some it \<Rightarrow> it) ++ ?upd)"
        unfolding w' unfolding p' world_after_returning using ok
        by (simp add: table_update_state)
      have r: "returned (process_url env cfg ig cd w) = Some None"
        unfolding p' returned_returning by (simp add: returned_update_state ok)
      show ?thesis
        using r by (simp add: stored_def t map_add_def now)
    qed
    have bad: "raised (process_url env cfg ig cd w) = Some ClientError"
      if "update_item_fails env (ticks w + 3) ?u upd"
    proof -
      from that have "update_item_fails env (Suc (Suc (Suc (ticks w)))) ?u ?upd"
        by (simp add: upd eval_nat_numeral)
      then show ?thesis
        unfolding p' by (simp add: update_state_def raised_def)
    qed
    show ?thesis
      using next_error_count_read [OF n] good bad by blast
  qed
  have uncounted: "raised (process_url env cfg ig cd w) = Some x"
    if "next_error_count prev = Inl x"
    unfolding p using that by (rule record_error_uncounted)
  have never: "returned (process_url env cfg ig cd w) \<noteq> Some (Some c)"
    unfolding p by (rule record_error_never_emits)
  have read: "prev = (if get_item_fails env (ticks w) ?u then None else table w ?u)"
    unfolding prev by (rule fst_get_state)
  show "returned (process_url env cfg ig cd w) \<noteq> Some (Some c)
     \<and> stored w' v ''last_hash'' = stored w v ''last_hash''
     \<and> stored w' v ''normalized_text'' = stored w v ''normalized_text''
     \<and> prev = (if get_item_fails env (ticks w) (url cfg) then None else table w (url cfg))
     \<and> (next_error_count prev = Inr n \<longrightarrow>
           n = (case prev of None \<Rightarrow> 0
                | Some st \<Rightarrow> (case st ''error_count'' of Some (VNum m) \<Rightarrow> m | _ \<Rightarrow> 0)) + 1
           \<and> (\<not> update_item_fails env (ticks w + 3) (url cfg) upd \<longrightarrow>
                 returned (process_url env cfg ig cd w) = Some None
                 \<and> stored w' (url cfg) ''error_count'' = Some (VNum n)
                 \<and> stored w' (url cfg) ''last_error'' = Some (VStr (take 500 e))
                 \<and> stored w' (url cfg) ''last_checked_at'' = Some (VStr now))
           \<and> (update_item_fails env (ticks w + 3) (url cfg) upd \<longrightarrow>
                 raised (process_url env cfg ig cd w) = Some ClientError))
     \<and> (next_error_count prev = Inl x \<longrightarrow> raised (process_url env cfg ig cd w) = Some x)"
    using never frame [of "''last_hash''"] frame [of "''normalized_text''"] read counted uncounted
    by simp
qed

theorem failure_counted_from_the_state_read_witness:
  "returned (process_url timeout_env example_config [] 6 example_world) = Some None
   \<and> stored (world_after (process_url timeout_env example_config [] 6 example_world))
        ''https://example.com'' ''error_count'' = Some (VNum 3)
   \<and> stored (world_after (process_url timeout_env example_config [] 6 example_world))
        ''https://example.com'' ''last_error'' = Some (VStr ''Timeout: read timed out'')
   \<and> stored (world_after (process_url timeout_env example_config [] 6 example_world))
        ''https://example.com'' ''last_hash'' = Some (VStr ''sha256 of old'')
   \<and> stored (world_after (process_url timeout_env example_config [] 6 example_world))
        ''https://example.com'' ''normalized_text'' = Some (VStr ''old'')
   \<and> stored (world_after (process_url timeout_read_down_env example_config [] 6 example_world))
        ''https://example.com'' ''error_count'' = Some (VNum 1)
   \<and> stored (world_after (process_url timeout_read_down_env example_config [] 6 example_world))
        ''https://example.com'' ''last_hash'' = Some (VStr ''sha256 of old'')"
proof -
  let ?u = "''https://example.com''"
  let ?resp = "\<lparr>status_code = 200, content = None, etag = None, last_modified = None\<rparr>"
  let ?e = "''Timeout: read timed out''"
  let ?now = "''1970-01-01T02:00:00+00:00''"
  let ?upd = "\<lambda>n. [''error_count'' \<mapsto> VNum n, ''last_error'' \<mapsto> VStr (take 500 ?e),
          ''last_checked_at'' \<mapsto> VStr ?now]"
  let ?W = "world_after (process_url timeout_env example_config [] 6 example_world)"
  let ?W' = "world_after (process_url timeout_read_down_env example_config [] 6 example_world)"
  have u: "url example_config = ?u"
    by (simp add: example_config_def)
  have st: "stored example_world ?u ''last_hash'' = Some (VStr ''sha256 of old'')"
    "stored example_world ?u ''normalized_text'' = Some (VStr ''old'')"
    by (simp_all add: stored_def example_world_def example_item_def)
  have h: "(fetch_url timeout_env (Suc (ticks example_world)) (url example_config)
        (USER_AGENT timeout_env) (conditional_headers (Some example_item)) = Inl ?e
     \<or> (fetch_url timeout_env (Suc (ticks example_world)) (url example_config)
          (USER_AGENT timeout_env) (conditional_headers (Some example_item)) = Inr ?resp
        \<and> status_code ?resp \<noteq> 304
        \<and> normalize_html timeout_env (content ?resp) (selector example_config) [] = Inl ?e))
   \<and> Some example_item = fst (get_state timeout_env (url example_config) example_world)
   \<and> ?now = isoformat timeout_env (clock timeout_env (ticks example_world + 2))
   \<and> ?upd 3 = [''error_count'' \<mapsto> VNum 3, ''last_error'' \<mapsto> VStr (take 500 ?e),
            ''last_checked_at'' \<mapsto> VStr ?now]
   \<and> ?W = ?W"
    by (simp add: timeout_env_def example_env_def example_world_def example_config_def
        get_state_def)
  have n: "next_error_count (Some example_item) = Inr 3"
    by (simp add: next_error_count_def example_item_def)
  have ok: "\<not> update_item_fails timeout_env (ticks example_world + 3) (url example_config) (?upd 3)"
    by (simp add: timeout_env_def example_env_def)
  note T = failure_counted_from_the_state_read [where env = timeout_env and w = example_world
      and cfg = example_config and prev = "Some example_item" and e = ?e and resp = ?resp
      and ig = "[]" and now = ?now and upd = "?upd 3" and n = 3 and w' = ?W and cd = 6
      and v = ?u, rule_format, OF h]
  have a: "stored ?W ?u ''last_hash'' = Some (VStr ''sha256 of old'')"
    "stored ?W ?u ''normalized_text'' = Some (VStr ''old'')"
    using T st by simp_all
  have b: "returned (process_url timeout_env example_config [] 6 example_world) = Some None
      \<and> stored ?W ?u ''error_count'' = Some (VNum 3)
      \<and> stored ?W ?u ''last_error'' = Some (VStr ?e)"
    using T [THEN conjunct2, THEN conjunct2, THEN conjunct2, THEN conjunct2, THEN conjunct1,
        rule_format, OF n, THEN conjunct2, THEN conjunct1, rule_format, OF ok]
    by (simp add: u)
  have h': "(fetch_url timeout_read_down_env (Suc (ticks example_world)) (url example_config)
        (USER_AGENT timeout_read_down_env) (conditional_headers None) = Inl ?e
     \<or> (fetch_url timeout_read_down_env (Suc (ticks example_world)) (url example_config)
          (USER_AGENT timeout_read_down_env) (conditional_headers None) = Inr ?resp
        \<and> status_code ?resp \<noteq> 304
        \<and> normalize_html timeout_read_down_env (content ?resp) (selector example_config) []
            = Inl ?e))
   \<and> None = fst (get_state timeout_read_down_env (url example_config) example_world)
   \<and> ?now = isoformat timeout_read_down_env
               (clock timeout_read_down_env (ticks example_world + 2))
   \<and> ?upd 1 = [''error_count'' \<mapsto> VNum 1, ''last_error'' \<mapsto> VStr (take 500 ?e),
            ''last_checked_at'' \<mapsto> VStr ?now]
   \<and> ?W' = ?W'"
    by (simp add: timeout_read_down_env_def timeout_env_def example_env_def example_world_def
        example_config_def get_state_def)
  have n': "next_error_count None = Inr 1"
    by (simp add: next_error_count_def)
  have ok': "\<not> update_item_fails timeout_read_down_env (ticks example_world + 3)
      (url example_config) (?upd 1)"
    by (simp add: timeout_read_down_env_def timeout_env_def example_env_def)
  note T' = failure_counted_from_the_state_read [where env = timeout_read_down_env
      and w = example_world and cfg = example_config and prev = None and e = ?e
      and resp = ?resp and ig = "[]" and now = ?now and upd = "?upd 1" and n = 1 and w' = ?W'
      and cd = 6 and v = ?u, rule_format, OF h']
  have c: "stored ?W' ?u ''last_hash'' = Some (VStr ''sha256 of old'')"
    using T' st by simp
  have d: "stored ?W' ?u ''error_count'' = Some (VNum 1)"
    using T' [THEN conjunct2, THEN conjunct2, THEN conjunct2, THEN conjunct2, THEN conjunct1,
        rule_format, OF n', THEN conjunct2, THEN conjunct1, rule_format, OF ok']
    by (simp add: u)
  show ?thesis using a b c d by blast
qed


lemma get_state_no_item: "table w u = None \<Longrightarrow> fst (get_state env u w) = None"
  by (simp add: get_state_def)

lemma conditional_headers_None: "conditional_headers None = Map.empty"
  by (simp add: conditional_headers_def)

lemma content_changed_new:
  "content_changed env u None cd resp ntext hash now w =
     (case update_state env u
             ((state_update hash now ntext resp)(''last_notified_at'' \<mapsto> VStr now)) w of
        Inl x \<Rightarrow> Inl x
      | Inr (a, w2) \<Rightarrow>
          Inr (Some \<lparr>change_url = u, previous_hash = VNull, new_hash = hash,
                 diff_snippet = generate_diff_snippet (get_opcodes env) [] ntext,
                 is_new = True\<rparr>, w2))"
  by (simp add: content_changed_def should_notify_def diff_against_def Let_def
      split: sum.splits prod.splits)

text \<open>
  C5, amended. Take a target with no stored item whose fetch and normalization succeed,
  and let the table accept the update. Then, for every \<open>cooldown_hours\<close>, \<open>process_url\<close>
  returns a change record with \<open>is_new\<close> true and no previous hash, whose snippet is one
  line \<open>+ \<close>\<dots> for each of the first 20 lines of the normalized text, followed, when the
  text has more than 20 lines, by the one line \<open>... (N more lines)\<close>.
\<close>

theorem new_target_is_reported:
  "table w (url cfg) = None
   \<and> fetch_url env (Suc (ticks w)) (url cfg) (USER_AGENT env) Map.empty = Inr resp
   \<and> status_code resp \<noteq> 304
   \<and> normalize_html env (content resp) (selector cfg) ig = Inr ntext
   \<and> now = isoformat env (clock env (ticks w + 2))
   \<and> \<not> update_item_fails env (ticks w + 3) (url cfg)
         ((state_update (compute_hash env ntext) now ntext resp)
            (''last_notified_at'' \<mapsto> VStr now))
   \<longrightarrow> returned (process_url env cfg ig cd w) =
         Some (Some \<lparr>change_url = url cfg, previous_hash = VNull,
                 new_hash = compute_hash env ntext,
                 diff_snippet =
                   join_nl (map (\<lambda>line. ''+ '' @ truncate_line line) (take 20 (splitlines ntext))
                     @ (if 20 < length (splitlines ntext)
                        then [more_lines (length (splitlines ntext) - 20)] else [])),
                 is_new = True\<rparr>)"
proof (intro impI)
  assume h: "table w (url cfg) = None
   \<and> fetch_url env (Suc (ticks w)) (url cfg) (USER_AGENT env) Map.empty = Inr resp
   \<and> status_code resp \<noteq> 304
   \<and> normalize_html env (content resp) (selector cfg) ig = Inr ntext
   \<and> now = isoformat env (clock env (ticks w + 2))
   \<and> \<not> update_item_fails env (ticks w + 3) (url cfg)
         ((state_update (compute_hash env ntext) now ntext resp)
            (''last_notified_at'' \<mapsto> VStr now))"
  let ?u = "url cfg"
  let ?upd = "(state_update (compute_hash env ntext) now ntext resp)
            (''last_notified_at'' \<mapsto> VStr now)"
  have g: "fst (get_state env ?u w) = None"
    using h by (simp add: get_state_no_item)
  have now: "now = isoformat env (clock env (Suc (Suc (ticks w))))"
    using h by simp
  have ok: "\<not> update_item_fails env (Suc (Suc (Suc (ticks w)))) ?u ?upd"
    using h by (clarsimp simp: eval_nat_numeral)
  have f: "fetch_url env (Suc (ticks w)) ?u (USER_AGENT env)
      (conditional_headers (fst (get_state env ?u w))) = Inr resp"
    using h by (simp add: g conditional_headers_None)
  have p: "process_url env cfg ig cd w =
      content_changed env ?u None cd resp ntext (compute_hash env ntext) now
        (tick (after_fetch env cfg w))"
    using h process_url_changed [OF f, of ig ntext cd] by (simp add: g now)
  show "returned (process_url env cfg ig cd w) =
         Some (Some \<lparr>change_url = url cfg, previous_hash = VNull,
                 new_hash = compute_hash env ntext,
                 diff_snippet =
                   join_nl (map (\<lambda>line. ''+ '' @ truncate_line line) (take 20 (splitlines ntext))
                     @ (if 20 < length (splitlines ntext)
                        then [more_lines (length (splitlines ntext) - 20)] else [])),
                 is_new = True\<rparr>)"
    unfolding p content_changed_new returned_returning
    by (simp add: returned_update_state ok snippet_new_url)
qed

text \<open>
  C5, as stated, fails for a new target whose text has 21 lines \<open>a\<close>: the snippet of
  the change record is 20 addition lines and then \<open>... (1 more lines)\<close>, which is no
  addition line.
\<close>

theorem new_target_snippet_ends_with_marker:
  "map_option (map_option diff_snippet)
     (returned (process_url long_page_env example_config [] 6 empty_world))
   = Some (Some (concat (replicate 20 (''+ a'' @ [LF])) @ ''... (1 more lines)''))"
  by code_simp

theorem new_target_is_reported_witness:
  "returned (process_url example_env example_config [] 6 empty_world) =
     Some (Some \<lparr>change_url = ''https://example.com'', previous_hash = VNull,
             new_hash = ''sha256 of new'', diff_snippet = ''+ new'', is_new = True\<rparr>)"
proof -
  let ?resp = "\<lparr>status_code = 200, content = Some ''<p>new</p>'', etag = None,
                 last_modified = None\<rparr>"
  let ?now = "''1970-01-01T02:00:00+00:00''"
  have h: "table empty_world (url example_config) = None
   \<and> fetch_url example_env (Suc (ticks empty_world)) (url example_config)
        (USER_AGENT example_env) Map.empty = Inr ?resp
   \<and> status_code ?resp \<noteq> 304
   \<and> normalize_html example_env (content ?resp) (selector example_config) [] = Inr ''new''
   \<and> ?now = isoformat example_env (clock example_env (ticks empty_world + 2))
   \<and> \<not> update_item_fails example_env (ticks empty_world + 3) (url example_config)
         ((state_update (compute_hash example_env ''new'') ?now ''new'' ?resp)
            (''last_notified_at'' \<mapsto> VStr ?now))"
    by (simp add: example_env_def empty_world_def example_config_def)
  have s: "splitlines ''new'' = [''new'']"
    by code_simp
  show ?thesis
    using new_target_is_reported [where env = example_env and w = empty_world
        and cfg = example_config and resp = ?resp and ig = "[]" and ntext = "''new''"
        and now = ?now and cd = 6, rule_format, OF h]
    by (simp add: example_config_def example_env_def s truncate_line_short)
qed

lemma world_after_lambda_handler_digests:
  "digests (world_after (lambda_handler env cfgs ig cd w)) =
     digests w @ (case returned (process_all env ig cd [] cfgs w) of
                    None \<Rightarrow> []
                  | Some changes \<Rightarrow> if changes = [] then [] else [(changes, length cfgs)])"
proof (cases cfgs)
  case Nil
  then show ?thesis
    by (simp add: lambda_handler_def world_after_def returned_def log_msg_def)
next
  case (Cons cfg rest)
  show ?thesis
  proof (cases "process_all env ig cd [] cfgs w")
    case (Inl x)
    then show ?thesis
      using process_all_digests [of env ig cd "[]" cfgs w] Cons
      by (simp add: lambda_handler_def returned_def world_after_def split: prod.splits)
  next
    case (Inr p)
    obtain changes w1 where p: "p = (changes, w1)" by (cases p)
    have "digests w1 = digests w"
      using process_all_digests [of env ig cd "[]" cfgs w] Inr p by (simp add: world_after_def)
    then show ?thesis
      using Inr p Cons
      by (simp add: lambda_handler_def returned_def world_after_def Let_def tick_def log_msg_def
          split: option.splits)
  qed
qed

lemma process_all_accumulates:
  "returned (process_all env ig cd changes cfgs w)
     = map_option ((@) changes) (returned (process_all env ig cd [] cfgs w))"
proof (induction cfgs arbitrary: changes w)
  case Nil
  then show ?case by (simp add: returned_def)
next
  case (Cons cfg cfgs)
  show ?case
  proof (cases "process_url env cfg ig cd w")
    case (Inl x)
    then show ?thesis by (simp add: returned_def)
  next
    case (Inr p)
    obtain change w1 where p: "p = (change, w1)" by (cases p)
    show ?thesis
    proof (cases change)
      case None
      then show ?thesis using Inr p Cons.IH [of changes w1] by simp
    next
      case (Some c)
      have "returned (process_all env ig cd (changes @ [c]) cfgs w1)
          = map_option ((@) (changes @ [c])) (returned (process_all env ig cd [] cfgs w1))"
        by (rule Cons.IH)
      moreover have "returned (process_all env ig cd [c] cfgs w1)
          = map_option ((@) [c]) (returned (process_all env ig cd [] cfgs w1))"
        by (rule Cons.IH)
      ultimately show ?thesis
        using Inr p Some
        by (cases "returned (process_all env ig cd [] cfgs w1)") simp_all
    qed
  qed
qed

lemma process_all_in_order:
  "returned (process_all env ig cd [] (cfg # cfgs) w) =
     (case process_url env cfg ig cd w of
        Inl x \<Rightarrow> None
      | Inr (change, w1) \<Rightarrow>
          map_option ((@) (case change of None \<Rightarrow> [] | Some c \<Rightarrow> [c]))
            (returned (process_all env ig cd [] cfgs w1)))"
proof (cases "process_url env cfg ig cd w")
  case (Inl x)
  then show ?thesis by (simp add: returned_def)
next
  case (Inr p)
  obtain change w1 where p: "p = (change, w1)" by (cases p)
  show ?thesis
    using Inr p
      process_all_accumulates [of env ig cd "case change of None \<Rightarrow> [] | Some c \<Rightarrow> [c]" cfgs w1]
    by (simp split: option.splits)
qed

section \<open>The run\<close>

text \<open>
  C9. Whatever a run does (it may return or raise), it adds to the calls of
  \<open>send_digest_email\<close> at most one call, and none when the run raises or when the list
  of change records is empty; the one call carries the list of change records that the
  loop collected and the number of configured URLs. That list is empty for no URL, and
  for a first URL followed by others it is the record returned for the first, if any,
  followed by the list collected for the others: the records in the order of the URLs.
\<close>

theorem digest_invoked_at_most_once:
  "digests (world_after (lambda_handler env cfgs ig cd w)) =
     digests w @ (case returned (process_all env ig cd [] cfgs w) of
                    None \<Rightarrow> []
                  | Some changes \<Rightarrow> if changes = [] then [] else [(changes, length cfgs)])
   \<and> length (digests (world_after (lambda_handler env cfgs ig cd w))) \<le> Suc (length (digests w))
   \<and> returned (process_all env ig cd [] [] w) = Some []
   \<and> returned (process_all env ig cd [] (cfg # rest) w) =
       (case process_url env cfg ig cd w of
          Inl x \<Rightarrow> None
        | Inr (change, w1) \<Rightarrow>
            map_option ((@) (case change of None \<Rightarrow> [] | Some c \<Rightarrow> [c]))
              (returned (process_all env ig cd [] rest w1)))"
  unfolding world_after_lambda_handler_digests process_all_in_order
  by (simp add: returned_def split: option.splits)

theorem digest_invoked_at_most_once_witness:
  "digests (world_after (lambda_handler example_env [example_config, other_config] [] 6
      empty_world))
   = [([\<lparr>change_url = ''https://example.com'', previous_hash = VNull,
          new_hash = ''sha256 of new'', diff_snippet = ''+ new'', is_new = True\<rparr>,
        \<lparr>change_url = ''https://example.org'', previous_hash = VNull,
          new_hash = ''sha256 of new'', diff_snippet = ''+ new'', is_new = True\<rparr>], 2)]"
proof -
  have r: "returned (process_all example_env [] 6 [] [example_config, other_config] empty_world)
     = Some [\<lparr>change_url = ''https://example.com'', previous_hash = VNull,
          new_hash = ''sha256 of new'', diff_snippet = ''+ new'', is_new = True\<rparr>,
        \<lparr>change_url = ''https://example.org'', previous_hash = VNull,
          new_hash = ''sha256 of new'', diff_snippet = ''+ new'', is_new = True\<rparr>]"
    by code_simp
  show ?thesis
    using digest_invoked_at_most_once [where env = example_env
        and cfgs = "[example_config, other_config]" and ig = "[]" and cd = 6
        and w = empty_world, THEN conjunct1]
    unfolding r by (simp add: empty_world_def)
qed

text \<open>
  C2, as stated, fails when the table rejects the update: in the example deployment the
  \<open>ClientError\<close> raised again by \<open>update_state\<close> leaves \<open>process_url\<close> and
  \<open>lambda_handler\<close>, the handler returns no count, and the second URL is never fetched.
\<close>

theorem table_failure_propagates:
  "raised (process_url table_down_env example_config [] 6 example_world) = Some ClientError
   \<and> raised (lambda_handler table_down_env [example_config, other_config] [] 6 example_world)
       = Some ClientError
   \<and> returned (lambda_handler table_down_env [example_config, other_config] [] 6 example_world)
       = None
   \<and> map fst (fetches (world_after
         (lambda_handler table_down_env [example_config, other_config] [] 6 example_world)))
       = [''https://example.com'']"
  by code_simp

lemma lambda_handler_returns:
  "cfgs \<noteq> [] \<Longrightarrow> returned (lambda_handler env cfgs ig cd w) = Some (status, b) \<Longrightarrow>
   status = 200 \<and> b = Check_completed (length cfgs) (changes_detected b)"
  by (auto simp: lambda_handler_def returned_def Let_def split: sum.splits prod.splits)

text \<open>
  C2, amended. Let the fetch of a target raise, or its normalization, with message \<open>e\<close>,
  and let the error count read from its state be absent or a number. If the table accepts
  the update, \<open>process_url\<close> returns without a change record, the table differs from
  the one before in the item of that URL only, which now holds the error count, the
  message and the time of the check, and the loop goes on with the remaining URLs from
  that world. If the table rejects the update, \<open>process_url\<close> raises \<open>ClientError\<close>.
  A run over a non-empty list of URLs that returns reports as \<open>urls_checked\<close> the
  number of configured URLs, failed ones included.
\<close>

theorem fetch_and_extraction_failures_are_contained:
  "((fetch_url env (Suc (ticks w)) (url cfg) (USER_AGENT env)
        (conditional_headers (fst (get_state env (url cfg) w))) = Inl e
     \<or> (fetch_url env (Suc (ticks w)) (url cfg) (USER_AGENT env)
          (conditional_headers (fst (get_state env (url cfg) w))) = Inr resp
        \<and> status_code resp \<noteq> 304
        \<and> normalize_html env (content resp) (selector cfg) ig = Inl e))
    \<and> next_error_count (fst (get_state env (url cfg) w)) = Inr n
    \<and> upd = [''error_count'' \<mapsto> VNum n, ''last_error'' \<mapsto> VStr (take 500 e),
             ''last_checked_at'' \<mapsto> VStr (isoformat env (clock env (ticks w + 2)))]
    \<and> w' = world_after (process_url env cfg ig cd w)
    \<longrightarrow> (\<not> update_item_fails env (ticks w + 3) (url cfg) upd \<longrightarrow>
           process_url env cfg ig cd w = Inr (None, w')
           \<and> table w' = (table w)(url cfg \<mapsto>
               (case table w (url cfg) of None \<Rightarrow> [''url'' \<mapsto> VStr (url cfg)] | Some it \<Rightarrow> it)
                 ++ upd)
           \<and> process_all env ig cd changes (cfg # cfgs) w
               = process_all env ig cd changes cfgs w')
      \<and> (update_item_fails env (ticks w + 3) (url cfg) upd \<longrightarrow>
           raised (process_url env cfg ig cd w) = Some ClientError))
   \<and> (all_cfgs \<noteq> [] \<and> returned (lambda_handler env all_cfgs ig cd w0) = Some (status, b)
      \<longrightarrow> status = 200 \<and> b = Check_completed (length all_cfgs) (changes_detected b))"
proof (intro conjI impI)
  assume h: "(fetch_url env (Suc (ticks w)) (url cfg) (USER_AGENT env)
        (conditional_headers (fst (get_state env (url cfg) w))) = Inl e
     \<or> (fetch_url env (Suc (ticks w)) (url cfg) (USER_AGENT env)
          (conditional_headers (fst (get_state env (url cfg) w))) = Inr resp
        \<and> status_code resp \<noteq> 304
        \<and> normalize_html env (content resp) (selector cfg) ig = Inl e))
    \<and> next_error_count (fst (get_state env (url cfg) w)) = Inr n
    \<and> upd = [''error_count'' \<mapsto> VNum n, ''last_error'' \<mapsto> VStr (take 500 e),
             ''last_checked_at'' \<mapsto> VStr (isoformat env (clock env (ticks w + 2)))]
    \<and> w' = world_after (process_url env cfg ig cd w)"
  let ?u = "url cfg"
  let ?upd = "[''error_count'' \<mapsto> VNum n, ''last_error'' \<mapsto> VStr (take 500 e),
      ''last_checked_at'' \<mapsto> VStr (isoformat env (clock env (Suc (Suc (ticks w)))))]"
  have upd: "upd = ?upd"
    using h by simp
  have n: "next_error_count (fst (get_state env ?u w)) = Inr n"
    using h by blast
  have w': "w' = world_after (process_url env cfg ig cd w)"
    using h by blast
  obtain what where p: "process_url env cfg ig cd w =
      record_error env ?u (fst (get_state env ?u w)) what e (after_fetch env cfg w)"
    using h process_url_failure [of env w cfg e resp ig cd] by blast
  have p': "process_url env cfg ig cd w =
      (case update_state env ?u ?upd
              (tick (log_msg ERROR (what @ ?u @ '': '' @ e) (after_fetch env cfg w))) of
         Inl x \<Rightarrow> Inl x | Inr (a, w2) \<Rightarrow> Inr (None, w2))"
    unfolding p record_error_counted [OF n] by simp
  {
    assume "\<not> update_item_fails env (ticks w + 3) ?u upd"
    then have ok: "\<not> update_item_fails env (Suc (Suc (Suc (ticks w)))) ?u ?upd"
      by (simp add: upd eval_nat_numeral)
    show r: "process_url env cfg ig cd w = Inr (None, w')"
      unfolding w' unfolding p' using ok
      by (simp add: update_state_def world_after_def)
    show "table w' = (table w)(?u \<mapsto>
               (case table w ?u of None \<Rightarrow> [''url'' \<mapsto> VStr ?u] | Some it \<Rightarrow> it) ++ upd)"
      unfolding w' unfolding p' world_after_returning using ok
      by (simp add: table_update_state upd)
    show "process_all env ig cd changes (cfg # cfgs) w = process_all env ig cd changes cfgs w'"
      by (simp add: r)
  }
  {
    assume "update_item_fails env (ticks w + 3) ?u upd"
    then have bad: "update_item_fails env (Suc (Suc (Suc (ticks w)))) ?u ?upd"
      by (simp add: upd eval_nat_numeral)
    show "raised (process_url env cfg ig cd w) = Some ClientError"
      unfolding p' using bad by (simp add: update_state_def raised_def)
  }
next
  assume "all_cfgs \<noteq> [] \<and> returned (lambda_handler env all_cfgs ig cd w0) = Some (status, b)"
  then show "status = 200" and "b = Check_completed (length all_cfgs) (changes_detected b)"
    using lambda_handler_returns [of all_cfgs env ig cd w0 status b] by blast+
qed

theorem fetch_and_extraction_failures_are_contained_witness:
  "returned (process_url timeout_env example_config [] 6 example_world) = Some None
   \<and> returned (lambda_handler timeout_env [example_config, other_config] [] 6 example_world)
       = Some (200, Check_completed 2 1)
   \<and> raised (process_url timeout_table_down_env example_config [] 6 example_world)
       = Some ClientError"
proof -
  let ?env = timeout_env
  let ?env' = timeout_table_down_env
  let ?resp = "\<lparr>status_code = 200, content = None, etag = None, last_modified = None\<rparr>"
  let ?e = "''Timeout: read timed out''"
  let ?upd = "[''error_count'' \<mapsto> VNum 3, ''last_error'' \<mapsto> VStr (take 500 ?e),
             ''last_checked_at'' \<mapsto> VStr ''1970-01-01T02:00:00+00:00'']"
  have h: "(fetch_url ?env (Suc (ticks example_world)) (url example_config) (USER_AGENT ?env)
        (conditional_headers (fst (get_state ?env (url example_config) example_world))) = Inl ?e
     \<or> (fetch_url ?env (Suc (ticks example_world)) (url example_config) (USER_AGENT ?env)
          (conditional_headers (fst (get_state ?env (url example_config) example_world)))
          = Inr ?resp
        \<and> status_code ?resp \<noteq> 304
        \<and> normalize_html ?env (content ?resp) (selector example_config) [] = Inl ?e))
    \<and> next_error_count (fst (get_state ?env (url example_config) example_world)) = Inr 3
    \<and> ?upd = [''error_count'' \<mapsto> VNum 3, ''last_error'' \<mapsto> VStr (take 500 ?e),
             ''last_checked_at'' \<mapsto>
                VStr (isoformat ?env (clock ?env (ticks example_world + 2)))]
    \<and> world_after (process_url ?env example_config [] 6 example_world)
        = world_after (process_url ?env example_config [] 6 example_world)"
    by (simp add: timeout_table_down_env_def timeout_env_def example_env_def example_world_def
        example_config_def example_item_def
        next_error_count_def get_state_def)
  have ok: "\<not> update_item_fails ?env (ticks example_world + 3) (url example_config) ?upd"
    by (simp add: timeout_table_down_env_def timeout_env_def example_env_def)
  have h': "(fetch_url ?env' (Suc (ticks example_world)) (url example_config) (USER_AGENT ?env')
        (conditional_headers (fst (get_state ?env' (url example_config) example_world))) = Inl ?e
     \<or> (fetch_url ?env' (Suc (ticks example_world)) (url example_config) (USER_AGENT ?env')
          (conditional_headers (fst (get_state ?env' (url example_config) example_world)))
          = Inr ?resp
        \<and> status_code ?resp \<noteq> 304
        \<and> normalize_html ?env' (content ?resp) (selector example_config) [] = Inl ?e))
    \<and> next_error_count (fst (get_state ?env' (url example_config) example_world)) = Inr 3
    \<and> ?upd = [''error_count'' \<mapsto> VNum 3, ''last_error'' \<mapsto> VStr (take 500 ?e),
             ''last_checked_at'' \<mapsto>
                VStr (isoformat ?env' (clock ?env' (ticks example_world + 2)))]
    \<and> world_after (process_url ?env' example_config [] 6 example_world)
        = world_after (process_url ?env' example_config [] 6 example_world)"
    by (simp add: timeout_table_down_env_def timeout_env_def example_env_def example_world_def
        example_config_def example_item_def
        next_error_count_def get_state_def)
  have bad: "update_item_fails ?env' (ticks example_world + 3) (url example_config) ?upd"
    by (simp add: timeout_table_down_env_def timeout_env_def example_env_def)
  have 1: "process_url ?env example_config [] 6 example_world
      = Inr (None, world_after (process_url ?env example_config [] 6 example_world))"
    using fetch_and_extraction_failures_are_contained [where env = ?env and w = example_world
        and cfg = example_config and e = ?e and resp = ?resp and ig = "[]" and n = 3
        and upd = ?upd and cd = 6
        and w' = "world_after (process_url ?env example_config [] 6 example_world)",
        THEN conjunct1, rule_format, OF h, THEN conjunct1, rule_format, OF ok]
    by blast
  have 2: "returned (lambda_handler ?env [example_config, other_config] [] 6 example_world)
      = Some (200, Check_completed 2 1)"
    by code_simp
  have 3: "raised (process_url ?env' example_config [] 6 example_world) = Some ClientError"
    using fetch_and_extraction_failures_are_contained [where env = ?env' and w = example_world
        and cfg = example_config and e = ?e and resp = ?resp and ig = "[]" and n = 3
        and upd = ?upd and cd = 6
        and w' = "world_after (process_url ?env' example_config [] 6 example_world)",
        THEN conjunct1, rule_format, OF h', THEN conjunct2, rule_format, OF bad] .
  have "returned (process_url ?env example_config [] 6 example_world) = Some None"
    by (subst 1) (simp add: returned_def)
  then show ?thesis using 2 3 by blast
qed

lemma process_url_keeps_attribute:
  assumes k: "k \<noteq> ''url''" "k \<noteq> ''error_count''" "k \<noteq> ''last_error''"
      "k \<noteq> ''last_checked_at''" "k \<noteq> ''last_notified_at''"
    and upd: "\<And>resp hash now ntext.
      fetch_url env (Suc (ticks w)) (url cfg) (USER_AGENT env)
        (conditional_headers (fst (get_state env (url cfg) w))) = Inr resp \<Longrightarrow>
      state_update hash now ntext resp k = None"
  shows "stored (world_after (process_url env cfg ig cd w)) v k = stored w v k"
proof -
  let ?AF = "after_fetch env cfg w"
  let ?P = "fst (get_state env (url cfg) w)"
  have af: "stored ?AF v k = stored w v k" "stored (tick ?AF) v k = stored w v k"
    by (simp_all add: stored_def)
  consider
    (err) what e where "world_after (process_url env cfg ig cd w)
        = world_after (record_error env (url cfg) ?P what e ?AF)"
  | (touch) "world_after (process_url env cfg ig cd w)
        = world_after (touch_state env (url cfg) ?AF)"
  | (same) now where "world_after (process_url env cfg ig cd w)
        = world_after (update_state env (url cfg)
            [''last_checked_at'' \<mapsto> VStr now, ''error_count'' \<mapsto> VNum 0] (tick ?AF))"
  | (changed) resp ntext hash now where
      "fetch_url env (Suc (ticks w)) (url cfg) (USER_AGENT env) (conditional_headers ?P) = Inr resp"
      "process_url env cfg ig cd w
         = content_changed env (url cfg) ?P cd resp ntext hash now (tick ?AF)"
    using process_url_world_after [of env cfg ig cd w] by blast
  then show ?thesis
  proof cases
    case err
    then show ?thesis using k af by (simp add: stored_record_error_frame)
  next
    case touch
    then show ?thesis using k af by (simp add: stored_touch_state_frame)
  next
    case same
    then show ?thesis using k af by (simp add: stored_update_state_frame)
  next
    case changed
    let ?S = "world_after (should_notify env (url cfg) ?P cd (tick ?AF))"
    have s: "stored ?S v k = stored w v k"
      using af by (simp add: stored_def table_should_notify)
    have u: "state_update hash now ntext resp k = None"
      by (rule upd [OF changed(1)])
    have u1: "stored (world_after (update_state env (url cfg)
        (state_update hash now ntext resp) ?S)) v k = stored w v k"
      using k u s by (simp add: stored_update_state_frame)
    have u2: "stored (world_after (update_state env (url cfg)
        ((state_update hash now ntext resp)(''last_notified_at'' \<mapsto> VStr now)) ?S)) v k
        = stored w v k"
      using k u s by (simp add: stored_update_state_frame)
    show ?thesis
      unfolding changed(2)
      using content_changed_world_after [of env "url cfg" ?P cd resp ntext hash now "tick ?AF"]
        s u1 u2
      by metis
  qed
qed

lemma state_update_validators:
  "etag resp = None \<Longrightarrow> state_update hash now ntext resp ''etag'' = None"
  "last_modified resp = None \<Longrightarrow> state_update hash now ntext resp ''last_modified'' = None"
  by (simp_all add: state_update_def Let_def split: option.splits)

lemma conditional_headers_replay:
  "stored w u ''etag'' = Some v \<Longrightarrow> truthy v \<Longrightarrow>
   conditional_headers (table w u) ''If-None-Match'' = Some v"
  "stored w u ''last_modified'' = Some v' \<Longrightarrow> truthy v' \<Longrightarrow>
   conditional_headers (table w u) ''If-Modified-Since'' = Some v'"
  by (auto simp: conditional_headers_def stored_def Let_def split: option.splits)

text \<open>
  C10. \<open>update_state\<close>, when the table accepts it, leaves every attribute of an existing
  item that \<open>updates\<close> does not name as it was, and sets the others. So after
  \<open>process_url\<close> has fetched a response without \<open>etag\<close>, the stored \<open>etag\<close> is what it
  was, and likewise for \<open>last_modified\<close> (in particular when the content change is
  persisted). The next call of \<open>process_url\<close> for that URL, when it reads the state,
  passes to the fetch the conditional headers built from the stored item, which hold a
  stored non-empty \<open>etag\<close> as \<open>If-None-Match\<close> and a stored non-empty \<open>last_modified\<close> as
  \<open>If-Modified-Since\<close>.
\<close>

theorem validators_survive_a_silent_response:
  "(\<not> update_item_fails env (ticks w) u updates \<and> table w u = Some it
      \<longrightarrow> stored (world_after (update_state env u updates w)) u k
            = (case updates k of None \<Rightarrow> it k | Some x \<Rightarrow> Some x))
   \<and> (fetch_url env (Suc (ticks w)) (url cfg) (USER_AGENT env)
         (conditional_headers (fst (get_state env (url cfg) w))) = Inr resp
       \<and> w' = world_after (process_url env cfg ig cd w)
      \<longrightarrow> (etag resp = None \<longrightarrow> stored w' v ''etag'' = stored w v ''etag'')
        \<and> (last_modified resp = None
             \<longrightarrow> stored w' v ''last_modified'' = stored w v ''last_modified''))
   \<and> (\<not> get_item_fails env2 (ticks w2) (url cfg)
      \<longrightarrow> fetches (world_after (process_url env2 cfg ig2 cd2 w2))
            = fetches w2 @ [(url cfg, conditional_headers (table w2 (url cfg)))])
   \<and> (stored w2 (url cfg) ''etag'' = Some t \<and> truthy t
      \<longrightarrow> conditional_headers (table w2 (url cfg)) ''If-None-Match'' = Some t)
   \<and> (stored w2 (url cfg) ''last_modified'' = Some m \<and> truthy m
      \<longrightarrow> conditional_headers (table w2 (url cfg)) ''If-Modified-Since'' = Some m)"
proof (intro conjI impI)
  assume "\<not> update_item_fails env (ticks w) u updates \<and> table w u = Some it"
  then show "stored (world_after (update_state env u updates w)) u k
            = (case updates k of None \<Rightarrow> it k | Some x \<Rightarrow> Some x)"
    by (simp add: stored_def table_update_state map_add_def)
next
  assume h: "fetch_url env (Suc (ticks w)) (url cfg) (USER_AGENT env)
         (conditional_headers (fst (get_state env (url cfg) w))) = Inr resp
       \<and> w' = world_after (process_url env cfg ig cd w)"
  {
    assume e: "etag resp = None"
    have "stored (world_after (process_url env cfg ig cd w)) v ''etag'' = stored w v ''etag''"
    proof (rule process_url_keeps_attribute)
      fix r hash now ntext
      assume "fetch_url env (Suc (ticks w)) (url cfg) (USER_AGENT env)
         (conditional_headers (fst (get_state env (url cfg) w))) = Inr r"
      with h have "r = resp" by simp
      then show "state_update hash now ntext r ''etag'' = None"
        using e by (simp add: state_update_validators)
    qed simp_all
    then show "stored w' v ''etag'' = stored w v ''etag''"
      using h by simp
  }
  {
    assume e: "last_modified resp = None"
    have "stored (world_after (process_url env cfg ig cd w)) v ''last_modified''
        = stored w v ''last_modified''"
    proof (rule process_url_keeps_attribute)
      fix r hash now ntext
      assume "fetch_url env (Suc (ticks w)) (url cfg) (USER_AGENT env)
         (conditional_headers (fst (get_state env (url cfg) w))) = Inr r"
      with h have "r = resp" by simp
      then show "state_update hash now ntext r ''last_modified'' = None"
        using e by (simp add: state_update_validators)
    qed simp_all
    then show "stored w' v ''last_modified'' = stored w v ''last_modified''"
      using h by simp
  }
next
  assume "\<not> get_item_fails env2 (ticks w2) (url cfg)"
  then show "fetches (world_after (process_url env2 cfg ig2 cd2 w2))
            = fetches w2 @ [(url cfg, conditional_headers (table w2 (url cfg)))]"
    using process_url_fetches_digests [of env2 cfg ig2 cd2 w2]
    by (simp add: fst_get_state)
next
  assume "stored w2 (url cfg) ''etag'' = Some t \<and> truthy t"
  then show "conditional_headers (table w2 (url cfg)) ''If-None-Match'' = Some t"
    using conditional_headers_replay(1) by blast
next
  assume "stored w2 (url cfg) ''last_modified'' = Some m \<and> truthy m"
  then show "conditional_headers (table w2 (url cfg)) ''If-Modified-Since'' = Some m"
    using conditional_headers_replay(2) by blast
qed

theorem validators_survive_a_silent_response_witness:
  "stored (world_after (update_state example_env ''https://example.com''
       [''error_count'' \<mapsto> VNum 0] example_world)) ''https://example.com'' ''etag''
     = Some (VStr ''v1'')
   \<and> stored (world_after (process_url example_env example_config [] 6 example_world))
       ''https://example.com'' ''etag'' = Some (VStr ''v1'')
   \<and> conditional_headers
        (table (world_after (process_url example_env example_config [] 6 example_world))
           ''https://example.com'') ''If-None-Match'' = Some (VStr ''v1'')
   \<and> fetches (world_after (process_url example_env example_config [] 6
        (world_after (process_url example_env example_config [] 6 example_world))))
     = fetches (world_after (process_url example_env example_config [] 6 example_world))
       @ [(''https://example.com'', conditional_headers
            (table (world_after (process_url example_env example_config [] 6 example_world))
               ''https://example.com''))]"
proof -
  let ?u = "''https://example.com''"
  let ?resp = "\<lparr>status_code = 200, content = Some ''<p>new</p>'', etag = None,
                 last_modified = None\<rparr>"
  let ?W = "world_after (process_url example_env example_config [] 6 example_world)"
  note T = validators_survive_a_silent_response [where env = example_env and w = example_world
      and u = ?u and updates = "[''error_count'' \<mapsto> VNum 0]" and it = example_item
      and k = "''etag''" and cfg = example_config and resp = ?resp and w' = ?W and ig = "[]"
      and cd = 6 and v = ?u and ?env2.0 = example_env and ?w2.0 = ?W and ?ig2.0 = "[]"
      and ?cd2.0 = 6 and t = "VStr ''v1''" and m = "VStr ''v1''"]
  have u: "url example_config = ?u"
    by (simp add: example_config_def)
  have h1: "\<not> update_item_fails example_env (ticks example_world) ?u [''error_count'' \<mapsto> VNum 0]
      \<and> table example_world ?u = Some example_item"
    by (simp add: example_env_def example_world_def)
  have h2: "fetch_url example_env (Suc (ticks example_world)) (url example_config)
         (USER_AGENT example_env)
         (conditional_headers (fst (get_state example_env (url example_config) example_world)))
       = Inr ?resp \<and> ?W = ?W"
    by (simp add: example_env_def)
  have h3: "\<not> get_item_fails example_env (ticks ?W) (url example_config)"
    by (simp add: example_env_def)
  have a: "stored (world_after (update_state example_env ?u [''error_count'' \<mapsto> VNum 0]
      example_world)) ?u ''etag'' = Some (VStr ''v1'')"
    using T [THEN conjunct1, rule_format, OF h1] by (simp add: example_item_def)
  have b: "stored ?W ?u ''etag'' = Some (VStr ''v1'')"
    using T [THEN conjunct2, THEN conjunct1, rule_format, OF h2, THEN conjunct1]
    by (simp add: stored_def example_world_def example_item_def)
  have c: "conditional_headers (table ?W ?u) ''If-None-Match'' = Some (VStr ''v1'')"
    using T [THEN conjunct2, THEN conjunct2, THEN conjunct2, THEN conjunct1] b
    by (simp add: u)
  have d: "fetches (world_after (process_url example_env example_config [] 6 ?W))
      = fetches ?W @ [(?u, conditional_headers (table ?W ?u))]"
    using T [THEN conjunct2, THEN conjunct2, THEN conjunct1, rule_format, OF h3]
    by (simp add: u)
  show ?thesis using a b c d by blast
qed

end
